theory Spec2Isabelle
  imports Main "HOL-Library.AList" "HOL-Library.Sublist" "HOL-Library.Word"
begin

section \<open>The Consul syncer of command/agent/consul/syncer.go\<close>

text \<open>
  A shallow embedding of the service-registry reconciliation engine (\<open>Syncer\<close>).
  Go maps are association lists read through \<^const>\<open>map_of\<close> and written through
  \<^const>\<open>AList.update\<close>; the order of an association list stands for the (unspecified)
  iteration order of the Go map, so theorems hold for every order. Locks are left out:
  the model is the sequential behaviour of each method.
\<close>

subsection \<open>Identifiers\<close>

type_synonym consulServiceID = string
type_synonym consulCheckID = string
type_synonym ServiceKey = string
type_synonym ServiceDomain = string

definition nomadServicePrefix :: string where
  "nomadServicePrefix = ''_nomad''"

definition ClientDomain :: ServiceDomain where
  "ClientDomain = ''client''"

definition ServerDomain :: ServiceDomain where
  "ServerDomain = ''server''"

text \<open>\<open>time.Duration\<close> is a signed 64-bit count of nanoseconds; addition wraps.\<close>

type_synonym Duration = "64 word"

definition ttlCheckBuffer :: Duration where
  "ttlCheckBuffer = 31 * 1000000000"

subsection \<open>Producer records (nomad/structs) and agent records (consul/api)\<close>

record ServiceCheck =
  sc_Name :: string
  sc_Type :: string
  sc_Command :: string
  sc_Args :: "string list"
  sc_Path :: string
  sc_Protocol :: string
  sc_Interval :: Duration
  sc_Timeout :: Duration

record Service =
  s_Name :: string
  s_Tags :: "string list"
  s_PortLabel :: string
  s_Checks :: "ServiceCheck list"

record AgentServiceRegistration =
  asr_ID :: string
  asr_Name :: string
  asr_Tags :: "string list"
  asr_Port :: int
  asr_Address :: string
  asr_EnableTagOverride :: bool

record AgentService =
  as_ID :: string
  as_Service :: string
  as_Tags :: "string list"
  as_Port :: int
  as_Address :: string
  as_EnableTagOverride :: bool

record AgentCheckRegistration =
  acr_ID :: string
  acr_Name :: string
  acr_Notes :: string
  acr_ServiceID :: string
  acr_Timeout :: string
  acr_Interval :: string
  acr_HTTP :: string
  acr_TCP :: string
  acr_TTL :: string

record AgentCheck =
  ac_CheckID :: string
  ac_Name :: string
  ac_Notes :: string
  ac_ServiceID :: string

definition ServiceCheckHTTP :: string where "ServiceCheckHTTP = ''http''"
definition ServiceCheckTCP :: string where "ServiceCheckTCP = ''tcp''"
definition ServiceCheckScript :: string where "ServiceCheckScript = ''script''"

subsection \<open>GenerateServiceKey and generateConsulServiceID\<close>

text \<open>\<open>strings.Join(elems, sep)\<close>.\<close>

fun Join :: "string list \<Rightarrow> string \<Rightarrow> string" where
  "Join [] sep = []"
| "Join [x] sep = x"
| "Join (x # y # ys) sep = x @ sep @ Join (y # ys) sep"

definition GenerateServiceKey :: "Service \<Rightarrow> ServiceKey" where
  "GenerateServiceKey service =
     (case length (s_Tags service) of
        0 \<Rightarrow> s_Name service
      | Suc _ \<Rightarrow> s_Name service @ ''-'' @ Join (s_Tags service) ''-'')"

definition generateConsulServiceID :: "ServiceDomain \<Rightarrow> ServiceKey \<Rightarrow> consulServiceID" where
  "generateConsulServiceID domain key = nomadServicePrefix @ ''-'' @ domain @ ''-'' @ key"

subsection \<open>compareConsulService and compareConsulCheck\<close>

text \<open>
  The second loop of \<open>compareConsulService\<close>: every agent tag must be a key of
  \<open>serviceTags\<close> (else the function returns false, here \<open>None\<close>) and is marked \<open>'b'\<close>.
\<close>

fun markConsulTags :: "string list \<Rightarrow> (string \<times> char) list \<Rightarrow> (string \<times> char) list option" where
  "markConsulTags [] serviceTags = Some serviceTags"
| "markConsulTags (tag # tags) serviceTags =
     (case map_of serviceTags tag of
        None \<Rightarrow> None
      | Some _ \<Rightarrow> markConsulTags tags (AList.update tag (CHR ''b'') serviceTags))"

definition compareConsulService :: "AgentServiceRegistration \<Rightarrow> AgentService \<Rightarrow> bool" where
  "compareConsulService localService consulService =
     (if as_ID consulService \<noteq> asr_ID localService \<or>
         as_Service consulService \<noteq> asr_Name localService \<or>
         as_Port consulService \<noteq> asr_Port localService \<or>
         as_Address consulService \<noteq> asr_Address localService \<or>
         as_EnableTagOverride consulService \<noteq> asr_EnableTagOverride localService
      then False
      else
        (let serviceTags = fold (\<lambda>tag m. AList.update tag (CHR ''l'') m) (asr_Tags localService) []
         in case markConsulTags (as_Tags consulService) serviceTags of
              None \<Rightarrow> False
            | Some serviceTags' \<Rightarrow> \<not> list_ex (\<lambda>(tag, state). state = CHR ''l'') serviceTags'))"

definition compareConsulCheck :: "AgentCheckRegistration \<Rightarrow> AgentCheck \<Rightarrow> bool" where
  "compareConsulCheck localCheck consulCheck =
     (if ac_CheckID consulCheck \<noteq> acr_ID localCheck \<or>
         ac_Name consulCheck \<noteq> acr_Name localCheck \<or>
         ac_Notes consulCheck \<noteq> acr_Notes localCheck \<or>
         ac_ServiceID consulCheck \<noteq> acr_ServiceID localCheck
      then False else True)"

subsection \<open>Errors\<close>

text \<open>
  \<open>CheckTypeNotValid t\<close> is \<open>fmt.Errorf("check type %+q not valid", t)\<close>; \<open>External\<close>
  is an error value produced outside this file (the agent's HTTP client, a delegated-check
  factory, a periodic handler); \<open>MultiError\<close> is \<open>multierror.Error\<close>.
\<close>

datatype error = CheckTypeNotValid string | External string | MultiError "error list"

definition ErrorOrNil :: "error list \<Rightarrow> error option" where
  "ErrorOrNil errs = (if length errs = 0 then None else Some (MultiError errs))"

definition appendErr :: "error option \<Rightarrow> error list \<Rightarrow> error list" where
  "appendErr err errs = (case err of None \<Rightarrow> errs | Some e \<Rightarrow> errs @ [e])"

subsection \<open>Delegated checks and channels\<close>

text \<open>
  Modelled from the spec: the \<open>Check\<close> capability and the \<open>CheckRunner\<close> of check.go, which
  is not among the sources. A check has an \<open>ID()\<close> and a \<open>Timeout()\<close>; a runner owns one check
  and has a start/stop lifecycle; a new runner is not yet started.
\<close>

record Check =
  ck_ID :: string
  ck_Timeout :: Duration

record CheckRunner =
  cr_check :: Check
  cr_started :: bool

definition NewCheckRunner :: "Check \<Rightarrow> CheckRunner" where
  "NewCheckRunner nc = \<lparr>cr_check = nc, cr_started = False\<rparr>"

definition Start :: "CheckRunner \<Rightarrow> CheckRunner" where
  "Start cr = cr\<lparr>cr_started := True\<rparr>"

definition Stop :: "CheckRunner \<Rightarrow> CheckRunner" where
  "Stop cr = cr\<lparr>cr_started := False\<rparr>"

text \<open>
  A Go channel of \<open>struct{}\<close>: \<open>None\<close> is the nil channel (the zero value of a channel
  field), \<open>Some (cap, n)\<close> a channel made with capacity \<open>cap\<close> that holds \<open>n\<close> values.
  \<open>trySend\<close> is \<open>select { case ch <- struct{}{}: default: }\<close> when no receiver is blocked on
  the channel: a send on a nil channel is never ready, a send on a full buffer is not
  ready, so the default branch runs and the channel is unchanged.
\<close>

type_synonym chan = "(nat \<times> nat) option"

definition trySend :: "chan \<Rightarrow> chan" where
  "trySend ch =
     (case ch of
        None \<Rightarrow> None
      | Some (cap, n) \<Rightarrow> if n < cap then Some (cap, Suc n) else Some (cap, n))"

definition pending :: "chan \<Rightarrow> bool" where
  "pending ch = (case ch of None \<Rightarrow> False | Some (cap, n) \<Rightarrow> 0 < n)"

subsection \<open>The Syncer\<close>

text \<open>
  The fields of \<open>Syncer\<close> that the methods below read or write. A nil function field is
  \<open>None\<close>; calling it panics. A nil map reads as the empty map.
\<close>

record Syncer =
  consulAvailable :: bool
  servicesGroups :: "(ServiceDomain \<times> (ServiceKey \<times> AgentServiceRegistration) list) list"
  checkGroups :: "(ServiceDomain \<times> (ServiceKey \<times> AgentCheckRegistration list) list) list"
  trackedChecks :: "(consulCheckID \<times> AgentCheckRegistration) list"
  trackedServices :: "(consulServiceID \<times> AgentServiceRegistration) list"
  checkRunners :: "(consulCheckID \<times> CheckRunner) list"
  addrFinder :: "(string \<Rightarrow> string \<times> int) option"
  createDelegatedCheck :: "(ServiceCheck \<Rightarrow> string \<Rightarrow> error + Check) option"
  delegateChecks :: "string set"
  shutdown :: bool
  notifyShutdownCh :: chan
  notifySyncCh :: chan

text \<open>
  The struct literal of \<open>NewSyncer\<close> (the construction of the HTTP client is outside the
  model). Fields the literal does not name have their zero value: both notification
  channels are nil, as are \<open>addrFinder\<close>, \<open>createDelegatedCheck\<close> and \<open>delegateChecks\<close>.
\<close>

definition NewSyncer :: Syncer where
  "NewSyncer =
     \<lparr>consulAvailable = True,
      servicesGroups = [],
      checkGroups = [],
      trackedChecks = [],
      trackedServices = [],
      checkRunners = [],
      addrFinder = None,
      createDelegatedCheck = None,
      delegateChecks = {},
      shutdown = False,
      notifyShutdownCh = None,
      notifySyncCh = None\<rparr>"

definition SetDelegatedChecks ::
  "Syncer \<Rightarrow> string set \<Rightarrow> (ServiceCheck \<Rightarrow> string \<Rightarrow> error + Check) option \<Rightarrow> Syncer" where
  "SetDelegatedChecks c delegateChecks' createDelegatedCheckFn =
     c\<lparr>delegateChecks := delegateChecks', createDelegatedCheck := createDelegatedCheckFn\<rparr>"

definition SetAddrFinder :: "Syncer \<Rightarrow> (string \<Rightarrow> string \<times> int) option \<Rightarrow> Syncer" where
  "SetAddrFinder c addrFinder' = c\<lparr>addrFinder := addrFinder'\<rparr>"

definition SyncNow :: "Syncer \<Rightarrow> Syncer" where
  "SyncNow c = c\<lparr>notifySyncCh := trySend (notifySyncCh c)\<rparr>"

subsection \<open>createService and createCheckReg\<close>

text \<open>
  Functions of the Go library and of nomad/structs that the syncer calls, taken as
  parameters: \<open>ServiceCheck.Hash\<close>, \<open>time.Duration.String\<close>, \<open>url.URL.String\<close> (scheme, host,
  path) and \<open>fmt.Sprintf("%s:%d", host, port)\<close>.
\<close>

record Env =
  Hash :: "ServiceCheck \<Rightarrow> string \<Rightarrow> string"
  DurationString :: "Duration \<Rightarrow> string"
  URLString :: "string \<Rightarrow> string \<Rightarrow> string \<Rightarrow> string"
  HostPort :: "string \<Rightarrow> int \<Rightarrow> string"

text \<open>
  \<open>createService\<close>: \<open>None\<close> is the panic of calling a nil \<open>addrFinder\<close>; otherwise the
  error result is always nil (\<open>Inr\<close>).
\<close>

definition createService ::
  "Syncer \<Rightarrow> Service \<Rightarrow> ServiceDomain \<Rightarrow> ServiceKey \<Rightarrow> (error + AgentServiceRegistration) option" where
  "createService c service domain key =
     (let srv = \<lparr>asr_ID = generateConsulServiceID domain key,
                 asr_Name = s_Name service,
                 asr_Tags = s_Tags service,
                 asr_Port = 0,
                 asr_Address = [],
                 asr_EnableTagOverride = False\<rparr>
      in case addrFinder c of
           None \<Rightarrow> None
         | Some finder \<Rightarrow>
             (let (host, port) = finder (s_PortLabel service);
                  srv1 = (if host \<noteq> [] then srv\<lparr>asr_Address := host\<rparr> else srv);
                  srv2 = (if port \<noteq> 0 then srv1\<lparr>asr_Port := port\<rparr> else srv1)
              in Some (Inr srv2)))"

text \<open>
  \<open>createCheckReg\<close> writes the default protocol into the check it is given (a pointer),
  so the model returns the check as well: the delegated-check factory sees the write.
\<close>

definition createCheckReg ::
  "Env \<Rightarrow> ServiceCheck \<Rightarrow> AgentServiceRegistration \<Rightarrow> error + (AgentCheckRegistration \<times> ServiceCheck)" where
  "createCheckReg env check service =
     (let chkReg = \<lparr>acr_ID = Hash env check (asr_ID service),
                    acr_Name = sc_Name check,
                    acr_Notes = [],
                    acr_ServiceID = asr_ID service,
                    acr_Timeout = DurationString env (sc_Timeout check),
                    acr_Interval = DurationString env (sc_Interval check),
                    acr_HTTP = [],
                    acr_TCP = [],
                    acr_TTL = []\<rparr>
      in if sc_Type check = ServiceCheckHTTP then
           (let check' = (if sc_Protocol check = [] then check\<lparr>sc_Protocol := ''http''\<rparr> else check)
            in Inr (chkReg\<lparr>acr_HTTP := URLString env (sc_Protocol check')
                                 (HostPort env (asr_Address service) (asr_Port service))
                                 (sc_Path check')\<rparr>, check'))
         else if sc_Type check = ServiceCheckTCP then
           Inr (chkReg\<lparr>acr_TCP := HostPort env (asr_Address service) (asr_Port service)\<rparr>, check)
         else if sc_Type check = ServiceCheckScript then
           Inr (chkReg\<lparr>acr_TTL := DurationString env (sc_Interval check + ttlCheckBuffer)\<rparr>, check)
         else Inl (CheckTypeNotValid (sc_Type check)))"

subsection \<open>SetServices\<close>

text \<open>
  The state of the construction loop of \<open>SetServices\<close>: \<open>registeredServices\<close>,
  \<open>registeredChecks\<close>, \<open>mErr.Errors\<close> and the syncer's runner table, which the loop writes
  as it goes.
\<close>

type_synonym buildState =
  "(ServiceKey \<times> AgentServiceRegistration) list \<times>
   (ServiceKey \<times> AgentCheckRegistration list) list \<times>
   error list \<times>
   (consulCheckID \<times> CheckRunner) list"

text \<open>\<open>registeredChecks[serviceKey] = append(registeredChecks[serviceKey], chkReg)\<close>.\<close>

definition appendCheck ::
  "ServiceKey \<Rightarrow> AgentCheckRegistration \<Rightarrow> (ServiceKey \<times> AgentCheckRegistration list) list \<Rightarrow>
   (ServiceKey \<times> AgentCheckRegistration list) list" where
  "appendCheck serviceKey chkReg registeredChecks =
     AList.update serviceKey
       ((case map_of registeredChecks serviceKey of None \<Rightarrow> [] | Some chks \<Rightarrow> chks) @ [chkReg])
       registeredChecks"

text \<open>
  The inner loop over \<open>service.Checks\<close>. \<open>None\<close> is the panic of calling a nil
  \<open>createDelegatedCheck\<close>. A delegated check that already has a runner takes the
  \<open>continue\<close>, so it is not appended to \<open>registeredChecks\<close>.
\<close>

fun registerChecks ::
  "Env \<Rightarrow> Syncer \<Rightarrow> ServiceKey \<Rightarrow> AgentServiceRegistration \<Rightarrow> ServiceCheck list \<Rightarrow>
   buildState \<Rightarrow> buildState option" where
  "registerChecks env c serviceKey serviceReg [] st = Some st"
| "registerChecks env c serviceKey serviceReg (chk # chks) (regS, regC, errs, runners) =
     (case createCheckReg env chk serviceReg of
        Inl err \<Rightarrow> registerChecks env c serviceKey serviceReg chks (regS, regC, errs @ [err], runners)
      | Inr (chkReg, chk') \<Rightarrow>
          if sc_Type chk' \<in> delegateChecks c then
            (case map_of runners (acr_ID chkReg) of
               Some _ \<Rightarrow> registerChecks env c serviceKey serviceReg chks (regS, regC, errs, runners)
             | None \<Rightarrow>
                 (case createDelegatedCheck c of
                    None \<Rightarrow> None
                  | Some factory \<Rightarrow>
                      (case factory chk' (acr_ID chkReg) of
                         Inl err \<Rightarrow>
                           registerChecks env c serviceKey serviceReg chks
                             (regS, regC, errs @ [err], runners)
                       | Inr nc \<Rightarrow>
                           registerChecks env c serviceKey serviceReg chks
                             (regS, appendCheck serviceKey chkReg regC, errs,
                              AList.update (ck_ID nc) (NewCheckRunner nc) runners))))
          else
            registerChecks env c serviceKey serviceReg chks
              (regS, appendCheck serviceKey chkReg regC, errs, runners))"

text \<open>The outer loop over the \<open>services\<close> map, in some iteration order.\<close>

fun buildRegistrations ::
  "Env \<Rightarrow> Syncer \<Rightarrow> ServiceDomain \<Rightarrow> (ServiceKey \<times> Service) list \<Rightarrow> buildState \<Rightarrow>
   buildState option" where
  "buildRegistrations env c domain [] st = Some st"
| "buildRegistrations env c domain ((serviceKey, service) # rest) (regS, regC, errs, runners) =
     (case createService c service domain serviceKey of
        None \<Rightarrow> None
      | Some (Inl err) \<Rightarrow> buildRegistrations env c domain rest (regS, regC, errs @ [err], runners)
      | Some (Inr serviceReg) \<Rightarrow>
          (case registerChecks env c serviceKey serviceReg (s_Checks service)
                  (AList.update serviceKey serviceReg regS, regC, errs, runners) of
             None \<Rightarrow> None
           | Some st' \<Rightarrow> buildRegistrations env c domain rest st'))"

text \<open>
  One iteration of a store loop: look the domain's map up, create and store an empty one
  when the domain is new, then write the key into it. Keys already in the domain's map
  and absent from the new registrations are not touched.
\<close>

definition storeInGroup ::
  "ServiceDomain \<Rightarrow> ServiceKey \<Rightarrow> 'v \<Rightarrow> (ServiceDomain \<times> (ServiceKey \<times> 'v) list) list \<Rightarrow>
   (ServiceDomain \<times> (ServiceKey \<times> 'v) list) list" where
  "storeInGroup domain serviceKey v groups =
     (case map_of groups domain of
        None \<Rightarrow> AList.update domain (AList.update serviceKey v []) groups
      | Some serviceKeys \<Rightarrow> AList.update domain (AList.update serviceKey v serviceKeys) groups)"

text \<open>
  \<open>SetServices\<close>: \<open>None\<close> is a panic; otherwise the returned error and the syncer after
  the call. With construction errors the function returns before the store loops.
\<close>

definition SetServices ::
  "Env \<Rightarrow> Syncer \<Rightarrow> ServiceDomain \<Rightarrow> (ServiceKey \<times> Service) list \<Rightarrow> (error option \<times> Syncer) option" where
  "SetServices env c domain services =
     (case buildRegistrations env c domain services ([], [], [], checkRunners c) of
        None \<Rightarrow> None
      | Some (registeredServices, registeredChecks, errs, runners) \<Rightarrow>
          (let c1 = c\<lparr>checkRunners := runners\<rparr>
           in if length errs > 0 then Some (ErrorOrNil errs, c1)
              else
                (let c2 = c1\<lparr>servicesGroups :=
                              fold (\<lambda>(serviceKey, service). storeInGroup domain serviceKey service)
                                registeredServices (servicesGroups c1)\<rparr>;
                     c3 = c2\<lparr>checkGroups :=
                              fold (\<lambda>(serviceKey, checks). storeInGroup domain serviceKey checks)
                                registeredChecks (checkGroups c2)\<rparr>
                 in Some (None, SyncNow c3))))"

subsection \<open>Flattening and filtering\<close>

definition flattenedServices :: "Syncer \<Rightarrow> AgentServiceRegistration list" where
  "flattenedServices c = concat (map (\<lambda>(domain, servicesGroup). map snd servicesGroup) (servicesGroups c))"

definition flattenedChecks :: "Syncer \<Rightarrow> AgentCheckRegistration list" where
  "flattenedChecks c = concat (map (\<lambda>(domain, checkGroup). concat (map snd checkGroup)) (checkGroups c))"

text \<open>
  The inner loop of both filters: some domain \<open>d\<close> of the group table has
  \<open>strings.HasPrefix(id, fmt.Sprintf("%s-%s", nomadServicePrefix, d))\<close>.
\<close>

definition matchesSomeDomain :: "ServiceDomain list \<Rightarrow> string \<Rightarrow> bool" where
  "matchesSomeDomain domains ident =
     list_ex (\<lambda>domain. prefix (nomadServicePrefix @ ''-'' @ domain) ident) domains"

definition filterConsulServices ::
  "Syncer \<Rightarrow> (string \<times> AgentService) list \<Rightarrow> (consulServiceID \<times> AgentService) list" where
  "filterConsulServices c consulServices =
     fold (\<lambda>(serviceID, service) localServices.
             if matchesSomeDomain (map fst (servicesGroups c)) (as_ID service)
             then AList.update serviceID service localServices else localServices)
       consulServices []"

definition filterConsulChecks ::
  "Syncer \<Rightarrow> (string \<times> AgentCheck) list \<Rightarrow> (consulCheckID \<times> AgentCheck) list" where
  "filterConsulChecks c consulChecks =
     fold (\<lambda>(checkID, check) localChecks.
             if matchesSomeDomain (map fst (checkGroups c)) (ac_ServiceID check)
             then AList.update checkID check localChecks else localChecks)
       consulChecks []"

text \<open>
  The test of \<open>ReapUnmatched\<close>, which includes the trailing hyphen
  (\<open>fmt.Sprintf("%s-%s-", nomadServicePrefix, domain)\<close>).
\<close>

definition reapMatch :: "ServiceDomain list \<Rightarrow> string \<Rightarrow> bool" where
  "reapMatch domains serviceID =
     list_ex (\<lambda>domain. prefix (nomadServicePrefix @ ''-'' @ domain @ ''-'') serviceID) domains"

subsection \<open>The diff engine\<close>

text \<open>
  \<open>localServices\<close> (and \<open>localChecks\<close>) map an ID to a registration and its state byte:
  \<open>'l'\<close> local only, \<open>'e'\<close> equal, \<open>'c'\<close> changed, \<open>'a'\<close> agent only. The counters of the
  source only size the result slices and are left out.
\<close>

definition mergeConsulService ::
  "AgentService \<Rightarrow> (string \<times> AgentServiceRegistration \<times> char) list \<Rightarrow>
   (string \<times> AgentServiceRegistration \<times> char) list" where
  "mergeConsulService consulService localServices =
     (case map_of localServices (as_ID consulService) of
        Some (localService, state) \<Rightarrow>
          if compareConsulService localService consulService
          then AList.update (as_ID consulService) (localService, CHR ''e'') localServices
          else AList.update (as_ID consulService) (localService, CHR ''c'') localServices
      | None \<Rightarrow>
          AList.update (as_ID consulService)
            (\<lparr>asr_ID = as_ID consulService,
              asr_Name = as_Service consulService,
              asr_Tags = as_Tags consulService,
              asr_Port = as_Port consulService,
              asr_Address = as_Address consulService,
              asr_EnableTagOverride = False\<rparr>, CHR ''a'')
            localServices)"

definition withState :: "char \<Rightarrow> (string \<times> 'r \<times> char) list \<Rightarrow> 'r list" where
  "withState st merged = map (\<lambda>(ident, reg, state). reg) (filter (\<lambda>(ident, reg, state). state = st) merged)"

definition mergedServices ::
  "Syncer \<Rightarrow> (consulServiceID \<times> AgentService) list \<Rightarrow> (string \<times> AgentServiceRegistration \<times> char) list" where
  "mergedServices c consulServices =
     fold (\<lambda>(serviceID, consulService). mergeConsulService consulService) consulServices
       (fold (\<lambda>localService. AList.update (asr_ID localService) (localService, CHR ''l''))
          (flattenedServices c) [])"

text \<open>The result is (missing, equal, changed, stale).\<close>

definition calcServicesDiff ::
  "Syncer \<Rightarrow> (consulServiceID \<times> AgentService) list \<Rightarrow>
   AgentServiceRegistration list \<times> AgentServiceRegistration list \<times>
   AgentServiceRegistration list \<times> AgentServiceRegistration list" where
  "calcServicesDiff c consulServices =
     (let localServices = mergedServices c consulServices
      in (withState (CHR ''l'') localServices, withState (CHR ''e'') localServices,
          withState (CHR ''c'') localServices, withState (CHR ''a'') localServices))"

definition mergeConsulCheck ::
  "AgentCheck \<Rightarrow> (string \<times> AgentCheckRegistration \<times> char) list \<Rightarrow>
   (string \<times> AgentCheckRegistration \<times> char) list" where
  "mergeConsulCheck consulCheck localChecks =
     (case map_of localChecks (ac_CheckID consulCheck) of
        Some (localCheck, state) \<Rightarrow>
          if compareConsulCheck localCheck consulCheck
          then AList.update (ac_CheckID consulCheck) (localCheck, CHR ''e'') localChecks
          else AList.update (ac_CheckID consulCheck) (localCheck, CHR ''c'') localChecks
      | None \<Rightarrow>
          AList.update (ac_CheckID consulCheck)
            (\<lparr>acr_ID = ac_CheckID consulCheck,
              acr_Name = ac_Name consulCheck,
              acr_Notes = ac_Notes consulCheck,
              acr_ServiceID = ac_ServiceID consulCheck,
              acr_Timeout = [],
              acr_Interval = [],
              acr_HTTP = [],
              acr_TCP = [],
              acr_TTL = []\<rparr>, CHR ''a'')
            localChecks)"

definition mergedChecks ::
  "Syncer \<Rightarrow> (consulCheckID \<times> AgentCheck) list \<Rightarrow> (string \<times> AgentCheckRegistration \<times> char) list" where
  "mergedChecks c consulChecks =
     fold (\<lambda>(checkID, consulCheck). mergeConsulCheck consulCheck) consulChecks
       (fold (\<lambda>localCheck. AList.update (acr_ID localCheck) (localCheck, CHR ''l''))
          (flattenedChecks c) [])"

definition calcChecksDiff ::
  "Syncer \<Rightarrow> (consulCheckID \<times> AgentCheck) list \<Rightarrow>
   AgentCheckRegistration list \<times> AgentCheckRegistration list \<times>
   AgentCheckRegistration list \<times> AgentCheckRegistration list" where
  "calcChecksDiff c consulChecks =
     (let localChecks = mergedChecks c consulChecks
      in (withState (CHR ''l'') localChecks, withState (CHR ''e'') localChecks,
          withState (CHR ''c'') localChecks, withState (CHR ''a'') localChecks))"

subsection \<open>The agent and the sync driver\<close>

text \<open>
  The Consul agent is reached through the client of consul/api, which is outside the
  repository: it is a state of any type \<open>'a\<close> with the six calls as parameters. The two
  queries return a map or an error; the four commands return an error or nil and the
  agent's next state.
\<close>

record 'a AgentAPI =
  agent_Services :: "'a \<Rightarrow> error + (string \<times> AgentService) list"
  agent_Checks :: "'a \<Rightarrow> error + (string \<times> AgentCheck) list"
  agent_ServiceRegister :: "AgentServiceRegistration \<Rightarrow> 'a \<Rightarrow> error option \<times> 'a"
  agent_ServiceDeregister :: "string \<Rightarrow> 'a \<Rightarrow> error option \<times> 'a"
  agent_CheckRegister :: "AgentCheckRegistration \<Rightarrow> 'a \<Rightarrow> error option \<times> 'a"
  agent_CheckDeregister :: "string \<Rightarrow> 'a \<Rightarrow> error option \<times> 'a"

text \<open>
  The commands sent to the agent are recorded in \<open>calls\<close>, a history that the source does
  not keep: it is there to state how many calls a sync issues.
\<close>

datatype call =
    CallServiceRegister AgentServiceRegistration
  | CallServiceDeregister string
  | CallCheckRegister AgentCheckRegistration
  | CallCheckDeregister string

record 'a World =
  syncer :: Syncer
  agent :: 'a
  calls :: "call list"

definition ServiceRegister ::
  "'a AgentAPI \<Rightarrow> AgentServiceRegistration \<Rightarrow> 'a World \<Rightarrow> error option \<times> 'a World" where
  "ServiceRegister api service w =
     (let (err, ag) = agent_ServiceRegister api service (agent w)
      in (err, w\<lparr>agent := ag, calls := calls w @ [CallServiceRegister service]\<rparr>))"

definition deregisterService ::
  "'a AgentAPI \<Rightarrow> string \<Rightarrow> 'a World \<Rightarrow> error option \<times> 'a World" where
  "deregisterService api serviceID w =
     (let (err, ag) = agent_ServiceDeregister api serviceID (agent w)
      in (err, w\<lparr>agent := ag, calls := calls w @ [CallServiceDeregister serviceID]\<rparr>))"

text \<open>\<open>registerCheck\<close> starts the runner of the check, when there is one, then calls the agent.\<close>

definition registerCheck ::
  "'a AgentAPI \<Rightarrow> AgentCheckRegistration \<Rightarrow> 'a World \<Rightarrow> error option \<times> 'a World" where
  "registerCheck api chkReg w =
     (let c = syncer w;
          c' = (case map_of (checkRunners c) (acr_ID chkReg) of
                  Some cr \<Rightarrow> c\<lparr>checkRunners := AList.update (acr_ID chkReg) (Start cr) (checkRunners c)\<rparr>
                | None \<Rightarrow> c);
          (err, ag) = agent_CheckRegister api chkReg (agent w)
      in (err, w\<lparr>syncer := c', agent := ag, calls := calls w @ [CallCheckRegister chkReg]\<rparr>))"

text \<open>
  \<open>deregisterCheck\<close> returns the agent's error before it touches the runner table; only
  after a successful call is the runner stopped and deleted.
\<close>

definition deregisterCheck ::
  "'a AgentAPI \<Rightarrow> consulCheckID \<Rightarrow> 'a World \<Rightarrow> error option \<times> 'a World" where
  "deregisterCheck api ident w =
     (let (err, ag) = agent_CheckDeregister api ident (agent w);
          w' = w\<lparr>agent := ag, calls := calls w @ [CallCheckDeregister ident]\<rparr>
      in case err of
           Some e \<Rightarrow> (Some e, w')
         | None \<Rightarrow>
             (case map_of (checkRunners (syncer w')) ident of
                Some cr \<Rightarrow>
                  (None, w'\<lparr>syncer := (syncer w')\<lparr>checkRunners := AList.delete ident (checkRunners (syncer w'))\<rparr>\<rparr>)
              | None \<Rightarrow> (None, w')))"

text \<open>
  The three loops of \<open>syncServices\<close>, each as the step of a fold over (\<open>mErr.Errors\<close>, world).
  The write to \<open>trackedServices\<close> follows the agent call whatever the call returned.
\<close>

definition syncMissingService ::
  "'a AgentAPI \<Rightarrow> AgentServiceRegistration \<Rightarrow> error list \<times> 'a World \<Rightarrow> error list \<times> 'a World" where
  "syncMissingService api service st =
     (let (errs, w) = st;
          (err, w') = ServiceRegister api service w
      in (appendErr err errs,
          w'\<lparr>syncer := (syncer w')\<lparr>trackedServices :=
                AList.update (asr_ID service) service (trackedServices (syncer w'))\<rparr>\<rparr>))"

definition syncChangedService ::
  "'a AgentAPI \<Rightarrow> AgentServiceRegistration \<Rightarrow> error list \<times> 'a World \<Rightarrow> error list \<times> 'a World" where
  "syncChangedService api service st =
     (let (errs, w) = st;
          (err, w') = ServiceRegister api service w
      in (appendErr err errs, w'))"

definition syncRemovedService ::
  "'a AgentAPI \<Rightarrow> AgentServiceRegistration \<Rightarrow> error list \<times> 'a World \<Rightarrow> error list \<times> 'a World" where
  "syncRemovedService api service st =
     (let (errs, w) = st;
          (err, w') = deregisterService api (asr_ID service) w
      in (appendErr err errs,
          w'\<lparr>syncer := (syncer w')\<lparr>trackedServices :=
                AList.delete (asr_ID service) (trackedServices (syncer w'))\<rparr>\<rparr>))"

definition syncServices :: "'a AgentAPI \<Rightarrow> 'a World \<Rightarrow> error option \<times> 'a World" where
  "syncServices api w =
     (case agent_Services api (agent w) of
        Inl err \<Rightarrow> (Some err, w)
      | Inr services \<Rightarrow>
          (let consulServices = filterConsulServices (syncer w) services;
               (missingServices, equalServices, changedServices, removedServices) =
                  calcServicesDiff (syncer w) consulServices;
               st1 = fold (syncMissingService api) missingServices ([], w);
               st2 = fold (syncChangedService api) changedServices st1;
               (errs, w') = fold (syncRemovedService api) removedServices st2
           in (ErrorOrNil errs, w')))"

definition syncMissingCheck ::
  "'a AgentAPI \<Rightarrow> AgentCheckRegistration \<Rightarrow> error list \<times> 'a World \<Rightarrow> error list \<times> 'a World" where
  "syncMissingCheck api check st =
     (let (errs, w) = st;
          (err, w') = registerCheck api check w
      in (appendErr err errs,
          w'\<lparr>syncer := (syncer w')\<lparr>trackedChecks :=
                AList.update (acr_ID check) check (trackedChecks (syncer w'))\<rparr>\<rparr>))"

definition syncChangedCheck ::
  "'a AgentAPI \<Rightarrow> AgentCheckRegistration \<Rightarrow> error list \<times> 'a World \<Rightarrow> error list \<times> 'a World" where
  "syncChangedCheck api check st =
     (let (errs, w) = st;
          (err, w') = registerCheck api check w
      in (appendErr err errs, w'))"

definition syncStaleCheck ::
  "'a AgentAPI \<Rightarrow> AgentCheckRegistration \<Rightarrow> error list \<times> 'a World \<Rightarrow> error list \<times> 'a World" where
  "syncStaleCheck api check st =
     (let (errs, w) = st;
          (err, w') = deregisterCheck api (acr_ID check) w
      in (appendErr err errs,
          w'\<lparr>syncer := (syncer w')\<lparr>trackedChecks :=
                AList.delete (acr_ID check) (trackedChecks (syncer w'))\<rparr>\<rparr>))"

definition syncChecks :: "'a AgentAPI \<Rightarrow> 'a World \<Rightarrow> error option \<times> 'a World" where
  "syncChecks api w =
     (case agent_Checks api (agent w) of
        Inl err \<Rightarrow> (Some err, w)
      | Inr checks \<Rightarrow>
          (let consulChecks = filterConsulChecks (syncer w) checks;
               (missingChecks, equalChecks, changedChecks, staleChecks) =
                  calcChecksDiff (syncer w) consulChecks;
               st1 = fold (syncMissingCheck api) missingChecks ([], w);
               st2 = fold (syncChangedCheck api) changedChecks st1;
               (errs, w') = fold (syncStaleCheck api) staleChecks st2
           in (ErrorOrNil errs, w')))"

text \<open>
  \<open>RunHandlers\<close> copies the handler table and runs the copy; the table is the parameter
  \<open>handlers\<close>. A periodic callback is any function of the world that returns an error or
  nil.
\<close>

type_synonym 'a PeriodicCallback = "'a World \<Rightarrow> error option \<times> 'a World"

definition runHandler ::
  "string \<times> 'a PeriodicCallback \<Rightarrow> error list \<times> 'a World \<Rightarrow> error list \<times> 'a World" where
  "runHandler h st =
     (let (name, fn) = h;
          (errs, w) = st;
          (err, w') = fn w
      in (appendErr err errs, w'))"

definition RunHandlers ::
  "(string \<times> 'a PeriodicCallback) list \<Rightarrow> 'a World \<Rightarrow> error option \<times> 'a World" where
  "RunHandlers handlers w =
     (let (errs, w') = fold runHandler handlers ([], w) in (ErrorOrNil errs, w'))"

definition SyncServices ::
  "'a AgentAPI \<Rightarrow> (string \<times> 'a PeriodicCallback) list \<Rightarrow> 'a World \<Rightarrow> error option \<times> 'a World" where
  "SyncServices api handlers w =
     (case RunHandlers handlers w of
        (Some err, w1) \<Rightarrow> (Some err, w1)
      | (None, w1) \<Rightarrow>
          (case syncServices api w1 of
             (Some err, w2) \<Rightarrow> (Some err, w2)
           | (None, w2) \<Rightarrow> syncChecks api w2))"

text \<open>
  \<open>ReapUnmatched\<close> deregisters every service of the agent whose ID starts with the Nomad
  prefix and matches none of the given domains.
\<close>

definition reapService ::
  "'a AgentAPI \<Rightarrow> ServiceDomain list \<Rightarrow> string \<Rightarrow> error list \<times> 'a World \<Rightarrow> error list \<times> 'a World" where
  "reapService api domains serviceID st =
     (let (errs, w) = st
      in if \<not> prefix nomadServicePrefix serviceID then (errs, w)
         else if reapMatch domains serviceID then (errs, w)
         else (let (err, w') = deregisterService api serviceID w in (appendErr err errs, w')))"

definition ReapUnmatched ::
  "'a AgentAPI \<Rightarrow> ServiceDomain list \<Rightarrow> 'a World \<Rightarrow> error option \<times> 'a World" where
  "ReapUnmatched api domains w =
     (case agent_Services api (agent w) of
        Inl err \<Rightarrow> (Some err, w)
      | Inr servicesInConsul \<Rightarrow>
          (let (errs, w') = fold (reapService api domains) (map fst servicesInConsul) ([], w)
           in (ErrorOrNil errs, w')))"

subsection \<open>An example environment and an in-memory agent\<close>

text \<open>
  Concrete parameters for evaluating the model: decimal rendering for
  \<open>fmt.Sprintf("%s:%d", host, port)\<close>, a duration rendering that agrees with
  \<open>time.Duration.String\<close> on whole seconds below one minute (the only durations the
  examples use), a readable stand-in for the content hash, a fixed address finder, and an
  agent that keeps its inventory in two maps and fails every command whose ID is listed
  in \<open>mem_failing\<close>.
\<close>

function natToDec :: "nat \<Rightarrow> string" where
  "natToDec n =
     (if n < 10 then [''0123456789'' ! n]
      else natToDec (n div 10) @ [''0123456789'' ! (n mod 10)])"
  by pat_completeness auto
termination
  by (relation "measure id") auto

declare natToDec.simps [simp del]

definition intToDec :: "int \<Rightarrow> string" where
  "intToDec i = (if i < 0 then ''-'' @ natToDec (nat (- i)) else natToDec (nat i))"

definition exampleEnv :: Env where
  "exampleEnv =
     \<lparr>Hash = (\<lambda>check serviceID. ''chk/'' @ sc_Name check @ ''/'' @ serviceID),
      DurationString = (\<lambda>d. natToDec (unat d div 1000000000) @ ''s''),
      URLString = (\<lambda>scheme host path. scheme @ ''://'' @ host @ path),
      HostPort = (\<lambda>host port. host @ '':'' @ intToDec port)\<rparr>"

definition exampleFinder :: "string \<Rightarrow> string \<times> int" where
  "exampleFinder portLabel = (''1.2.3.4'', 4647)"

definition exampleFactory :: "ServiceCheck \<Rightarrow> string \<Rightarrow> error + Check" where
  "exampleFactory check ident = Inr \<lparr>ck_ID = ident, ck_Timeout = sc_Timeout check\<rparr>"

record MemAgent =
  mem_services :: "(string \<times> AgentService) list"
  mem_checks :: "(string \<times> AgentCheck) list"
  mem_failing :: "string list"

definition memAPI :: "MemAgent AgentAPI" where
  "memAPI =
     \<lparr>agent_Services = (\<lambda>a. Inr (mem_services a)),
      agent_Checks = (\<lambda>a. Inr (mem_checks a)),
      agent_ServiceRegister = (\<lambda>reg a.
         if asr_ID reg \<in> set (mem_failing a) then (Some (External ''agent unreachable''), a)
         else (None, a\<lparr>mem_services := AList.update (asr_ID reg)
                 \<lparr>as_ID = asr_ID reg, as_Service = asr_Name reg, as_Tags = asr_Tags reg,
                  as_Port = asr_Port reg, as_Address = asr_Address reg,
                  as_EnableTagOverride = asr_EnableTagOverride reg\<rparr> (mem_services a)\<rparr>)),
      agent_ServiceDeregister = (\<lambda>ident a.
         if ident \<in> set (mem_failing a) then (Some (External ''agent unreachable''), a)
         else (None, a\<lparr>mem_services := AList.delete ident (mem_services a)\<rparr>)),
      agent_CheckRegister = (\<lambda>reg a.
         if acr_ID reg \<in> set (mem_failing a) then (Some (External ''agent unreachable''), a)
         else (None, a\<lparr>mem_checks := AList.update (acr_ID reg)
                 \<lparr>ac_CheckID = acr_ID reg, ac_Name = acr_Name reg, ac_Notes = acr_Notes reg,
                  ac_ServiceID = acr_ServiceID reg\<rparr> (mem_checks a)\<rparr>)),
      agent_CheckDeregister = (\<lambda>ident a.
         if ident \<in> set (mem_failing a) then (Some (External ''agent unreachable''), a)
         else (None, a\<lparr>mem_checks := AList.delete ident (mem_checks a)\<rparr>))\<rparr>"

text \<open>Example producers' records and the syncer states they lead to.\<close>

definition nomadService :: Service where
  "nomadService =
     \<lparr>s_Name = ''nomad'', s_Tags = [''rpc'', ''serf''], s_PortLabel = ''rpc'', s_Checks = []\<rparr>"

definition redisService :: Service where
  "redisService =
     \<lparr>s_Name = ''redis'', s_Tags = [], s_PortLabel = ''db'',
      s_Checks = [\<lparr>sc_Name = ''alive'', sc_Type = ''tcp'', sc_Command = [], sc_Args = [],
                   sc_Path = [], sc_Protocol = [], sc_Interval = 10000000000,
                   sc_Timeout = 2000000000\<rparr>]\<rparr>"

definition freshSyncer :: Syncer where
  "freshSyncer = SetAddrFinder NewSyncer (Some exampleFinder)"

definition redisRegistration :: AgentServiceRegistration where
  "redisRegistration =
     \<lparr>asr_ID = ''_nomad-executor-a1-web-redis'', asr_Name = ''redis'', asr_Tags = [],
      asr_Port = 4647, asr_Address = ''1.2.3.4'', asr_EnableTagOverride = False\<rparr>"

definition redisCheckRegistration :: AgentCheckRegistration where
  "redisCheckRegistration =
     \<lparr>acr_ID = ''chk/alive/_nomad-executor-a1-web-redis'', acr_Name = ''alive'', acr_Notes = [],
      acr_ServiceID = ''_nomad-executor-a1-web-redis'', acr_Timeout = ''2s'',
      acr_Interval = ''10s'', acr_HTTP = [], acr_TCP = ''1.2.3.4:4647'', acr_TTL = []\<rparr>"

text \<open>
  The syncer of the executor of task \<open>web\<close> of allocation \<open>a1\<close>, after
  \<open>SetServices("executor-a1-web", {"redis": redisService})\<close> on a fresh syncer.
\<close>

definition executorSyncer :: Syncer where
  "executorSyncer =
     freshSyncer
       \<lparr>servicesGroups := [(''executor-a1-web'', [(''redis'', redisRegistration)])],
        checkGroups := [(''executor-a1-web'', [(''redis'', [redisCheckRegistration])])]\<rparr>"

text \<open>A service and a check of another executor (task \<open>web2\<close>), as the agent reports them.\<close>

definition foreignService :: AgentService where
  "foreignService =
     \<lparr>as_ID = ''_nomad-executor-a1-web2-redis'', as_Service = ''redis'', as_Tags = [],
      as_Port = 6379, as_Address = ''1.2.3.4'', as_EnableTagOverride = False\<rparr>"

definition foreignCheck :: AgentCheck where
  "foreignCheck =
     \<lparr>ac_CheckID = ''chk/alive/_nomad-executor-a1-web2-redis'', ac_Name = ''alive'',
      ac_Notes = [], ac_ServiceID = ''_nomad-executor-a1-web2-redis''\<rparr>"

text \<open>
  The errors the handlers return when they run one after the other, each on the world the
  one before left, and the world after the last: what \<open>RunHandlers\<close> is compared with.
\<close>

fun handlerErrors :: "(string \<times> 'a PeriodicCallback) list \<Rightarrow> 'a World \<Rightarrow> error list" where
  "handlerErrors [] w = []"
| "handlerErrors ((name, fn) # handlers) w =
     (case fn w of
        (None, w') \<Rightarrow> handlerErrors handlers w'
      | (Some e, w') \<Rightarrow> e # handlerErrors handlers w')"

fun handlersWorld :: "(string \<times> 'a PeriodicCallback) list \<Rightarrow> 'a World \<Rightarrow> 'a World" where
  "handlersWorld [] w = w"
| "handlersWorld ((name, fn) # handlers) w = handlersWorld handlers (snd (fn w))"

text \<open>Example worlds: the executor's syncer in front of an empty agent.\<close>

definition failingHandler :: "MemAgent PeriodicCallback" where
  "failingHandler w = (Some (External ''handler failed''), w)"

definition passingHandler :: "MemAgent PeriodicCallback" where
  "passingHandler w = (None, w)"

definition emptyAgentWorld :: "MemAgent World" where
  "emptyAgentWorld =
     \<lparr>syncer = executorSyncer,
      agent = \<lparr>mem_services = [], mem_checks = [], mem_failing = []\<rparr>,
      calls = []\<rparr>"

text \<open>
  The same syncer in front of an agent that fails every command for the redis service and
  for a service \<open>ghost\<close> that it holds from an earlier run and the syncer tracks.
\<close>

definition ghostRegistration :: AgentServiceRegistration where
  "ghostRegistration =
     \<lparr>asr_ID = ''_nomad-executor-a1-web-ghost'', asr_Name = ''ghost'', asr_Tags = [],
      asr_Port = 4647, asr_Address = ''1.2.3.4'', asr_EnableTagOverride = False\<rparr>"

definition failingAgentWorld :: "MemAgent World" where
  "failingAgentWorld =
     \<lparr>syncer = executorSyncer
         \<lparr>trackedServices := [(''_nomad-executor-a1-web-ghost'', ghostRegistration)]\<rparr>,
      agent = \<lparr>mem_services =
                 [(''_nomad-executor-a1-web-ghost'',
                   \<lparr>as_ID = ''_nomad-executor-a1-web-ghost'', as_Service = ''ghost'',
                    as_Tags = [], as_Port = 4647, as_Address = ''1.2.3.4'',
                    as_EnableTagOverride = False\<rparr>)],
               mem_checks = [],
               mem_failing = [''_nomad-executor-a1-web-redis'', ''_nomad-executor-a1-web-ghost'',
                              ''chk/alive/_nomad-executor-a1-web-redis'']\<rparr>,
      calls = []\<rparr>"

subsection \<open>Notions used to state the properties\<close>

text \<open>\<open>groups[domain][serviceKey]\<close>, for \<open>servicesGroups\<close> and \<open>checkGroups\<close>.\<close>

definition groupLookup ::
  "(ServiceDomain \<times> (ServiceKey \<times> 'v) list) list \<Rightarrow> ServiceDomain \<Rightarrow> ServiceKey \<Rightarrow> 'v option" where
  "groupLookup groups domain serviceKey =
     (case map_of groups domain of None \<Rightarrow> None | Some serviceKeys \<Rightarrow> map_of serviceKeys serviceKey)"

text \<open>
  The delegated-check factory returns checks that carry the ID they were given, so that
  the key \<open>nc.ID()\<close> under which \<open>SetServices\<close> stores a runner is the check's
  registration ID.
\<close>

definition factoryKeepsID :: "Syncer \<Rightarrow> bool" where
  "factoryKeepsID c \<longleftrightarrow>
     (\<forall>factory chk ident nc.
        createDelegatedCheck c = Some factory \<longrightarrow> factory chk ident = Inr nc \<longrightarrow> ck_ID nc = ident)"

text \<open>
  The check registrations that \<open>createCheckReg\<close> derives from the checks of a service:
  all of them, those whose check type is not delegated, and the IDs of those whose check
  type is delegated.
\<close>

definition derivedChecks :: "Env \<Rightarrow> AgentServiceRegistration \<Rightarrow> ServiceCheck list \<Rightarrow> AgentCheckRegistration set" where
  "derivedChecks env reg chks = {chkReg. \<exists>chk\<in>set chks. \<exists>chk'. createCheckReg env chk reg = Inr (chkReg, chk')}"

definition derivedPlainChecks :: "Env \<Rightarrow> Syncer \<Rightarrow> AgentServiceRegistration \<Rightarrow> ServiceCheck list \<Rightarrow> AgentCheckRegistration set" where
  "derivedPlainChecks env c reg chks =
     {chkReg. \<exists>chk\<in>set chks. \<exists>chk'. createCheckReg env chk reg = Inr (chkReg, chk') \<and> sc_Type chk \<notin> delegateChecks c}"

definition derivedDelegatedIDs :: "Env \<Rightarrow> Syncer \<Rightarrow> AgentServiceRegistration \<Rightarrow> ServiceCheck list \<Rightarrow> string set" where
  "derivedDelegatedIDs env c reg chks =
     {acr_ID chkReg |chkReg chk chk'. chk \<in> set chks \<and> createCheckReg env chk reg = Inr (chkReg, chk') \<and> sc_Type chk \<in> delegateChecks c}"

text \<open>
  The check IDs of the checks of a services map whose check type is delegated, over the
  services for which \<open>createService\<close> returns a registration.
\<close>

definition delegatedIDs ::
  "Env \<Rightarrow> Syncer \<Rightarrow> ServiceDomain \<Rightarrow> (ServiceKey \<times> Service) list \<Rightarrow> string set" where
  "delegatedIDs env c domain services =
     (\<Union>(serviceKey, service)\<in>set services.
        case createService c service domain serviceKey of
          Some (Inr reg) \<Rightarrow> derivedDelegatedIDs env c reg (s_Checks service)
        | _ \<Rightarrow> {})"

text \<open>
  The construction errors of \<open>SetServices(domain, services)\<close>: the error that
  \<open>createCheckReg\<close> returns for a check of an unknown type, and the error that the
  delegated-check factory returns for a check of a delegated type. \<open>SetServices\<close> calls
  the factory only for a check whose ID has no runner, so the factory errors are taken
  relative to a runner table.
\<close>

definition checkTypeErrors :: "ServiceCheck list \<Rightarrow> error set" where
  "checkTypeErrors chks =
     {CheckTypeNotValid (sc_Type chk) |chk.
        chk \<in> set chks \<and> sc_Type chk \<notin> {ServiceCheckHTTP, ServiceCheckTCP, ServiceCheckScript}}"

definition checkFactoryErrors ::
  "Env \<Rightarrow> Syncer \<Rightarrow> AgentServiceRegistration \<Rightarrow> ServiceCheck list \<Rightarrow>
   (consulCheckID \<times> CheckRunner) list \<Rightarrow> error set" where
  "checkFactoryErrors env c reg chks runners =
     {e. \<exists>chk chkReg chk' factory.
        chk \<in> set chks \<and>
        createCheckReg env chk reg = Inr (chkReg, chk') \<and>
        sc_Type chk \<in> delegateChecks c \<and>
        map_of runners (acr_ID chkReg) = None \<and>
        createDelegatedCheck c = Some factory \<and>
        factory chk' (acr_ID chkReg) = Inl e}"

definition typeErrors :: "(ServiceKey \<times> Service) list \<Rightarrow> error set" where
  "typeErrors services =
     (\<Union>(serviceKey, service)\<in>set services. checkTypeErrors (s_Checks service))"

definition factoryErrors ::
  "Env \<Rightarrow> Syncer \<Rightarrow> ServiceDomain \<Rightarrow> (ServiceKey \<times> Service) list \<Rightarrow>
   (consulCheckID \<times> CheckRunner) list \<Rightarrow> error set" where
  "factoryErrors env c domain services runners =
     (\<Union>(serviceKey, service)\<in>set services.
        case createService c service domain serviceKey of
          Some (Inr reg) \<Rightarrow> checkFactoryErrors env c reg (s_Checks service) runners
        | _ \<Rightarrow> {})"

text \<open>
  Agreement of the agent's filtered inventory with the flattened local state: every
  local registration has an agent record with its ID, every agent record has a local
  registration with its ID, and records with the same ID are equal under
  \<open>compareConsulService\<close> (\<open>compareConsulCheck\<close> for checks).
\<close>

definition servicesAgree :: "Syncer \<Rightarrow> (consulServiceID \<times> AgentService) list \<Rightarrow> bool" where
  "servicesAgree c consulServices \<longleftrightarrow>
     (\<forall>localService\<in>set (flattenedServices c).
        \<exists>consulService\<in>snd ` set consulServices. as_ID consulService = asr_ID localService) \<and>
     (\<forall>consulService\<in>snd ` set consulServices.
        \<exists>localService\<in>set (flattenedServices c). asr_ID localService = as_ID consulService) \<and>
     (\<forall>localService\<in>set (flattenedServices c). \<forall>consulService\<in>snd ` set consulServices.
        as_ID consulService = asr_ID localService \<longrightarrow>
        compareConsulService localService consulService)"

definition checksAgree :: "Syncer \<Rightarrow> (consulCheckID \<times> AgentCheck) list \<Rightarrow> bool" where
  "checksAgree c consulChecks \<longleftrightarrow>
     (\<forall>localCheck\<in>set (flattenedChecks c).
        \<exists>consulCheck\<in>snd ` set consulChecks. ac_CheckID consulCheck = acr_ID localCheck) \<and>
     (\<forall>consulCheck\<in>snd ` set consulChecks.
        \<exists>localCheck\<in>set (flattenedChecks c). acr_ID localCheck = ac_CheckID consulCheck) \<and>
     (\<forall>localCheck\<in>set (flattenedChecks c). \<forall>consulCheck\<in>snd ` set consulChecks.
        ac_CheckID consulCheck = acr_ID localCheck \<longrightarrow>
        compareConsulCheck localCheck consulCheck)"

text \<open>
  The invariant of the diff's merge loop when the inventories agree: the merged map has
  one entry per local ID, holding a local registration with that ID, in state \<open>'e'\<close> when
  an agent record with the ID has been merged (the IDs in \<open>P\<close>) and \<open>'l'\<close> otherwise.
\<close>

definition mergedServicesInv ::
  "AgentServiceRegistration list \<Rightarrow> string set \<Rightarrow> (string \<times> AgentServiceRegistration \<times> char) list \<Rightarrow> bool" where
  "mergedServicesInv locals P m \<longleftrightarrow>
     distinct (map fst m) \<and> dom (map_of m) = asr_ID ` set locals \<and>
     (\<forall>k ls st. map_of m k = Some (ls, st) \<longrightarrow>
        asr_ID ls = k \<and> ls \<in> set locals \<and> st = (if k \<in> P then CHR ''e'' else CHR ''l''))"

definition mergedChecksInv ::
  "AgentCheckRegistration list \<Rightarrow> string set \<Rightarrow> (string \<times> AgentCheckRegistration \<times> char) list \<Rightarrow> bool" where
  "mergedChecksInv locals P m \<longleftrightarrow>
     distinct (map fst m) \<and> dom (map_of m) = acr_ID ` set locals \<and>
     (\<forall>k ls st. map_of m k = Some (ls, st) \<longrightarrow>
        acr_ID ls = k \<and> ls \<in> set locals \<and> st = (if k \<in> P then CHR ''e'' else CHR ''l''))"

text \<open>
  Further examples: a service with a script check, the same service with a second check
  of an unknown type, a syncer that runs script checks itself, and the state a failed
  \<open>SetServices\<close> leaves it in.
\<close>

definition scriptCheck :: ServiceCheck where
  "scriptCheck =
     \<lparr>sc_Name = ''run'', sc_Type = ''script'', sc_Command = ''/bin/true'', sc_Args = [],
      sc_Path = [], sc_Protocol = [], sc_Interval = 10000000000, sc_Timeout = 2000000000\<rparr>"

definition grpcCheck :: ServiceCheck where
  "grpcCheck =
     \<lparr>sc_Name = ''probe'', sc_Type = ''grpc'', sc_Command = [], sc_Args = [],
      sc_Path = [], sc_Protocol = [], sc_Interval = 10000000000, sc_Timeout = 2000000000\<rparr>"

definition jobService :: Service where
  "jobService = \<lparr>s_Name = ''job'', s_Tags = [], s_PortLabel = ''http'', s_Checks = [scriptCheck]\<rparr>"

definition brokenService :: Service where
  "brokenService =
     \<lparr>s_Name = ''job'', s_Tags = [], s_PortLabel = ''http'', s_Checks = [scriptCheck, grpcCheck]\<rparr>"

definition delegatingSyncer :: Syncer where
  "delegatingSyncer = SetDelegatedChecks freshSyncer {''script''} (Some exampleFactory)"

definition jobRegistration :: AgentServiceRegistration where
  "jobRegistration =
     \<lparr>asr_ID = ''_nomad-executor-a1-web-job'', asr_Name = ''job'', asr_Tags = [],
      asr_Port = 4647, asr_Address = ''1.2.3.4'', asr_EnableTagOverride = False\<rparr>"

definition jobRunner :: CheckRunner where
  "jobRunner =
     NewCheckRunner \<lparr>ck_ID = ''chk/run/_nomad-executor-a1-web-job'', ck_Timeout = 2000000000\<rparr>"

definition orphanRunnerSyncer :: Syncer where
  "orphanRunnerSyncer =
     delegatingSyncer\<lparr>checkRunners := [(''chk/run/_nomad-executor-a1-web-job'', jobRunner)]\<rparr>"

text \<open>
  A factory that fails for every check, and a syncer that delegates script checks to it.
\<close>

definition refusingFactory :: "ServiceCheck \<Rightarrow> string \<Rightarrow> error + Check" where
  "refusingFactory check ident = Inl (External ''no executor'')"

definition refusingSyncer :: Syncer where
  "refusingSyncer = SetDelegatedChecks freshSyncer {''script''} (Some refusingFactory)"

text \<open>
  A service with a script check and a tcp check, the registrations of its two checks, and
  the state in which \<open>SetServices\<close> with this service leaves the delegating syncer.
\<close>

definition aliveCheck :: ServiceCheck where
  "aliveCheck =
     \<lparr>sc_Name = ''alive'', sc_Type = ''tcp'', sc_Command = [], sc_Args = [],
      sc_Path = [], sc_Protocol = [], sc_Interval = 10000000000, sc_Timeout = 2000000000\<rparr>"

definition watchedService :: Service where
  "watchedService =
     \<lparr>s_Name = ''job'', s_Tags = [], s_PortLabel = ''http'', s_Checks = [scriptCheck, aliveCheck]\<rparr>"

definition jobScriptRegistration :: AgentCheckRegistration where
  "jobScriptRegistration =
     \<lparr>acr_ID = ''chk/run/_nomad-executor-a1-web-job'', acr_Name = ''run'', acr_Notes = [],
      acr_ServiceID = ''_nomad-executor-a1-web-job'', acr_Timeout = ''2s'',
      acr_Interval = ''10s'', acr_HTTP = [], acr_TCP = [], acr_TTL = ''41s''\<rparr>"

definition jobAliveRegistration :: AgentCheckRegistration where
  "jobAliveRegistration =
     \<lparr>acr_ID = ''chk/alive/_nomad-executor-a1-web-job'', acr_Name = ''alive'', acr_Notes = [],
      acr_ServiceID = ''_nomad-executor-a1-web-job'', acr_Timeout = ''2s'',
      acr_Interval = ''10s'', acr_HTTP = [], acr_TCP = ''1.2.3.4:4647'', acr_TTL = []\<rparr>"

definition watchedSyncer :: Syncer where
  "watchedSyncer =
     delegatingSyncer
       \<lparr>servicesGroups := [(''executor-a1-web'', [(''job'', jobRegistration)])],
        checkGroups := [(''executor-a1-web'', [(''job'', [jobScriptRegistration, jobAliveRegistration])])],
        checkRunners := [(''chk/run/_nomad-executor-a1-web-job'', jobRunner)]\<rparr>"

text \<open>
  The executor's syncer in front of an agent that holds exactly its service and its check.
\<close>

definition agreeingWorld :: "MemAgent World" where
  "agreeingWorld =
     \<lparr>syncer = executorSyncer,
      agent = \<lparr>mem_services =
                 [(''_nomad-executor-a1-web-redis'',
                   \<lparr>as_ID = ''_nomad-executor-a1-web-redis'', as_Service = ''redis'',
                    as_Tags = [], as_Port = 4647, as_Address = ''1.2.3.4'',
                    as_EnableTagOverride = False\<rparr>)],
               mem_checks =
                 [(''chk/alive/_nomad-executor-a1-web-redis'',
                   \<lparr>ac_CheckID = ''chk/alive/_nomad-executor-a1-web-redis'', ac_Name = ''alive'',
                    ac_Notes = [], ac_ServiceID = ''_nomad-executor-a1-web-redis''\<rparr>)],
               mem_failing = []\<rparr>,
      calls = []\<rparr>"

section \<open>Properties\<close>

subsection \<open>The identifier scheme\<close>

lemma GenerateServiceKey_Join:
  "GenerateServiceKey service = Join (s_Name service # s_Tags service) ''-''"
  by (cases "s_Tags service") (simp_all add: GenerateServiceKey_def)

lemma hyphen_split_unique:
  assumes "CHR ''-'' \<notin> set x" "CHR ''-'' \<notin> set y" "x @ CHR ''-'' # r = y @ CHR ''-'' # r'"
  shows "x = y \<and> r = r'"
  using assms
proof (induction x arbitrary: y)
  case Nil
  then show ?case by (cases y) auto
next
  case (Cons a x)
  then show ?case by (cases y) auto
qed

lemma Join_Cons: "Join (x # xs) sep = (if xs = [] then x else x @ sep @ Join xs sep)"
  by (cases xs) simp_all

lemma Join_hyphen_inj:
  assumes "\<forall>x\<in>set xs. CHR ''-'' \<notin> set x" "\<forall>y\<in>set ys. CHR ''-'' \<notin> set y"
    and "xs \<noteq> []" "ys \<noteq> []" "Join xs ''-'' = Join ys ''-''"
  shows "xs = ys"
  using assms
proof (induction xs arbitrary: ys)
  case Nil
  then show ?case by simp
next
  case (Cons x xs)
  then obtain y ys' where ys: "ys = y # ys'" by (cases ys) auto
  have hx: "CHR ''-'' \<notin> set x" and hy: "CHR ''-'' \<notin> set y"
    using Cons.prems ys by auto
  show ?case
  proof (cases "xs = []")
    case True
    show ?thesis
    proof (cases "ys' = []")
      case True
      with \<open>xs = []\<close> Cons.prems ys show ?thesis by simp
    next
      case False
      with \<open>xs = []\<close> Cons.prems(5) ys have "x = y @ CHR ''-'' # Join ys' ''-''"
        by (simp add: Join_Cons)
      with hx show ?thesis by auto
    qed
  next
    case False
    show ?thesis
    proof (cases "ys' = []")
      case True
      with False Cons.prems(5) ys have "y = x @ CHR ''-'' # Join xs ''-''"
        by (simp add: Join_Cons)
      with hy show ?thesis by auto
    next
      case ne: False
      with False Cons.prems(5) ys
      have "x @ CHR ''-'' # Join xs ''-'' = y @ CHR ''-'' # Join ys' ''-''"
        by (simp add: Join_Cons)
      with hx hy have "x = y" and j: "Join xs ''-'' = Join ys' ''-''"
        using hyphen_split_unique by blast+
      moreover have "xs = ys'"
        using Cons.IH[of ys'] Cons.prems ys False ne j by simp
      ultimately show ?thesis using ys by simp
    qed
  qed
qed

lemma generateConsulServiceID_inj:
  "generateConsulServiceID d k1 = generateConsulServiceID d k2 \<longleftrightarrow> k1 = k2"
  by (simp add: generateConsulServiceID_def)

text \<open>
  Claim C10, as stated, fails: the key joins the name and the tags with hyphens, so a
  hyphen inside a name or a tag cannot be told from a separator. The service named
  \<open>a-b\<close> without tags and the service named \<open>a\<close> with the tag \<open>b\<close> have different
  (name, tag list) pairs, the same ServiceKey \<open>a-b\<close>, and so the same Consul service ID
  in any one domain.
\<close>

theorem GenerateServiceKey_collision:
  "(s_Name \<lparr>s_Name = ''a-b'', s_Tags = [], s_PortLabel = ''http'', s_Checks = []\<rparr>,
    s_Tags \<lparr>s_Name = ''a-b'', s_Tags = [], s_PortLabel = ''http'', s_Checks = []\<rparr>)
     \<noteq> (s_Name \<lparr>s_Name = ''a'', s_Tags = [''b''], s_PortLabel = ''http'', s_Checks = []\<rparr>,
        s_Tags \<lparr>s_Name = ''a'', s_Tags = [''b''], s_PortLabel = ''http'', s_Checks = []\<rparr>)
   \<and> GenerateServiceKey \<lparr>s_Name = ''a-b'', s_Tags = [], s_PortLabel = ''http'', s_Checks = []\<rparr>
     = GenerateServiceKey \<lparr>s_Name = ''a'', s_Tags = [''b''], s_PortLabel = ''http'', s_Checks = []\<rparr>
   \<and> generateConsulServiceID ClientDomain
        (GenerateServiceKey \<lparr>s_Name = ''a-b'', s_Tags = [], s_PortLabel = ''http'', s_Checks = []\<rparr>)
     = generateConsulServiceID ClientDomain
        (GenerateServiceKey \<lparr>s_Name = ''a'', s_Tags = [''b''], s_PortLabel = ''http'', s_Checks = []\<rparr>)"
  by (simp add: GenerateServiceKey_def)

text \<open>
  Claim C10, amended: within any one domain, two services whose names and tags contain
  no hyphen and whose (name, tag list) pairs differ have distinct ServiceKeys under
  \<open>GenerateServiceKey\<close>, and hence distinct Consul service IDs
  \<open>"_nomad-" + domain + "-" + key\<close>.
\<close>

theorem GenerateServiceKey_distinct_hyphen_free:
  assumes "CHR ''-'' \<notin> set (s_Name s1)" "\<forall>t\<in>set (s_Tags s1). CHR ''-'' \<notin> set t"
    and "CHR ''-'' \<notin> set (s_Name s2)" "\<forall>t\<in>set (s_Tags s2). CHR ''-'' \<notin> set t"
    and "(s_Name s1, s_Tags s1) \<noteq> (s_Name s2, s_Tags s2)"
  shows "GenerateServiceKey s1 \<noteq> GenerateServiceKey s2 \<and>
         generateConsulServiceID domain (GenerateServiceKey s1)
           \<noteq> generateConsulServiceID domain (GenerateServiceKey s2)"
proof -
  have "GenerateServiceKey s1 \<noteq> GenerateServiceKey s2"
  proof
    assume "GenerateServiceKey s1 = GenerateServiceKey s2"
    then have "Join (s_Name s1 # s_Tags s1) ''-'' = Join (s_Name s2 # s_Tags s2) ''-''"
      by (simp only: GenerateServiceKey_Join)
    then have "s_Name s1 # s_Tags s1 = s_Name s2 # s_Tags s2"
      using Join_hyphen_inj[of "s_Name s1 # s_Tags s1" "s_Name s2 # s_Tags s2"] assms(1-4)
      by simp
    with assms(5) show False by simp
  qed
  then show ?thesis by (simp add: generateConsulServiceID_inj)
qed

theorem GenerateServiceKey_distinct_hyphen_free_witness:
  "GenerateServiceKey \<lparr>s_Name = ''nomad'', s_Tags = [''rpc'', ''serf''], s_PortLabel = ''rpc'', s_Checks = []\<rparr>
     \<noteq> GenerateServiceKey \<lparr>s_Name = ''nomad'', s_Tags = [''serf'', ''rpc''], s_PortLabel = ''rpc'', s_Checks = []\<rparr>
   \<and> generateConsulServiceID ServerDomain
        (GenerateServiceKey \<lparr>s_Name = ''nomad'', s_Tags = [''rpc'', ''serf''], s_PortLabel = ''rpc'', s_Checks = []\<rparr>)
     \<noteq> generateConsulServiceID ServerDomain
        (GenerateServiceKey \<lparr>s_Name = ''nomad'', s_Tags = [''serf'', ''rpc''], s_PortLabel = ''rpc'', s_Checks = []\<rparr>)"
  using GenerateServiceKey_distinct_hyphen_free
    [of "\<lparr>s_Name = ''nomad'', s_Tags = [''rpc'', ''serf''], s_PortLabel = ''rpc'', s_Checks = []\<rparr>"
        "\<lparr>s_Name = ''nomad'', s_Tags = [''serf'', ''rpc''], s_PortLabel = ''rpc'', s_Checks = []\<rparr>"
        ServerDomain]
  by simp

subsection \<open>Service equality\<close>

lemma map_of_fold_update_l:
  "map_of (fold (\<lambda>tag m. AList.update tag (CHR ''l'') m) tags m0) =
     (\<lambda>t. if t \<in> set tags then Some (CHR ''l'') else map_of m0 t)"
  by (induction tags arbitrary: m0) (auto simp: update_conv' fun_eq_iff)

lemma distinct_fold_update_l:
  "distinct (map fst m0) \<Longrightarrow>
   distinct (map fst (fold (\<lambda>tag m. AList.update tag (CHR ''l'') m) tags m0))"
  by (induction tags arbitrary: m0) (auto simp: distinct_update)

lemma markConsulTags_None:
  "markConsulTags tags m = None \<longleftrightarrow> \<not> set tags \<subseteq> dom (map_of m)"
  by (induction tags arbitrary: m) (auto simp: update_conv' dom_update split: option.splits)

lemma markConsulTags_Some:
  "markConsulTags tags m = Some m' \<Longrightarrow>
     map_of m' = (\<lambda>t. if t \<in> set tags then Some (CHR ''b'') else map_of m t)"
  by (induction tags arbitrary: m) (auto simp: update_conv' fun_eq_iff split: option.splits)

lemma markConsulTags_distinct:
  "markConsulTags tags m = Some m' \<Longrightarrow> distinct (map fst m) \<Longrightarrow> distinct (map fst m')"
  by (induction tags arbitrary: m) (auto simp: distinct_update split: option.splits)

lemma list_ex_state:
  "distinct (map fst m) \<Longrightarrow>
   list_ex (\<lambda>(tag, state). state = c) m \<longleftrightarrow> (\<exists>t. map_of m t = Some c)"
  by (auto simp: list_ex_iff)

text \<open>
  Claim C6, as stated, fails: the tags are compared through a map keyed by tag, so a
  repeated tag counts once. The local tag list \<open>["a","a"]\<close> and the agent's tag list
  \<open>["a"]\<close> compare equal, where the claim says unequal.
\<close>

theorem compareConsulService_duplicate_tags_equal:
  "compareConsulService
     \<lparr>asr_ID = ''_nomad-client-web-a-a'', asr_Name = ''web'', asr_Tags = [''a'', ''a''],
      asr_Port = 80, asr_Address = ''10.0.0.1'', asr_EnableTagOverride = False\<rparr>
     \<lparr>as_ID = ''_nomad-client-web-a-a'', as_Service = ''web'', as_Tags = [''a''],
      as_Port = 80, as_Address = ''10.0.0.1'', as_EnableTagOverride = False\<rparr>"
  by (simp add: compareConsulService_def)

text \<open>
  Claim C6, amended: \<open>compareConsulService\<close> returns true for a local registration and an
  agent service if and only if they have the same ID, display name, port, address and
  EnableTagOverride flag, and their tag sets are equal: order-insensitive and with
  duplicates ignored, so lists differing only in order or in repetition compare equal.
\<close>

theorem compareConsulService_iff_tag_sets:
  "compareConsulService localService consulService \<longleftrightarrow>
     as_ID consulService = asr_ID localService \<and>
     as_Service consulService = asr_Name localService \<and>
     as_Port consulService = asr_Port localService \<and>
     as_Address consulService = asr_Address localService \<and>
     as_EnableTagOverride consulService = asr_EnableTagOverride localService \<and>
     set (asr_Tags localService) = set (as_Tags consulService)"
proof -
  let ?m = "fold (\<lambda>tag m. AList.update tag (CHR ''l'') m) (asr_Tags localService) []"
  have d: "distinct (map fst ?m)" by (rule distinct_fold_update_l) simp
  have dom: "dom (map_of ?m) = set (asr_Tags localService)"
    by (auto simp: map_of_fold_update_l split: if_splits)
  have tags: "(case markConsulTags (as_Tags consulService) ?m of None \<Rightarrow> False
      | Some m' \<Rightarrow> \<not> list_ex (\<lambda>(tag, state). state = CHR ''l'') m')
     \<longleftrightarrow> set (asr_Tags localService) = set (as_Tags consulService)"
  proof (cases "markConsulTags (as_Tags consulService) ?m")
    case None
    then show ?thesis using markConsulTags_None[of "as_Tags consulService" ?m] dom by auto
  next
    case (Some m')
    have sub: "set (as_Tags consulService) \<subseteq> set (asr_Tags localService)"
      using Some markConsulTags_None[of "as_Tags consulService" ?m] dom by auto
    have m': "map_of m' = (\<lambda>t. if t \<in> set (as_Tags consulService) then Some (CHR ''b'')
                 else if t \<in> set (asr_Tags localService) then Some (CHR ''l'') else None)"
      unfolding markConsulTags_Some[OF Some] map_of_fold_update_l by (simp add: fun_eq_iff)
    have "list_ex (\<lambda>(tag, state). state = CHR ''l'') m' \<longleftrightarrow> (\<exists>t. map_of m' t = Some (CHR ''l''))"
      using list_ex_state[OF markConsulTags_distinct[OF Some d]] .
    also have "\<dots> \<longleftrightarrow> (\<exists>t. t \<in> set (asr_Tags localService) \<and> t \<notin> set (as_Tags consulService))"
      by (auto simp: m' split: if_splits)
    finally show ?thesis using Some sub by auto
  qed
  show ?thesis
    unfolding compareConsulService_def Let_def using tags by auto
qed

theorem compareConsulService_iff_tag_sets_witness:
  "compareConsulService
     \<lparr>asr_ID = ''_nomad-client-web-a-b'', asr_Name = ''web'', asr_Tags = [''a'', ''b''],
      asr_Port = 80, asr_Address = ''10.0.0.1'', asr_EnableTagOverride = False\<rparr>
     \<lparr>as_ID = ''_nomad-client-web-a-b'', as_Service = ''web'', as_Tags = [''b'', ''a''],
      as_Port = 80, as_Address = ''10.0.0.1'', as_EnableTagOverride = False\<rparr>
   \<and> \<not> compareConsulService
     \<lparr>asr_ID = ''_nomad-client-web-a-b'', asr_Name = ''web'', asr_Tags = [''a'', ''b''],
      asr_Port = 80, asr_Address = ''10.0.0.1'', asr_EnableTagOverride = False\<rparr>
     \<lparr>as_ID = ''_nomad-client-web-a-b'', as_Service = ''web'', as_Tags = [''a''],
      as_Port = 80, as_Address = ''10.0.0.1'', as_EnableTagOverride = False\<rparr>"
  using compareConsulService_iff_tag_sets
    [of "\<lparr>asr_ID = ''_nomad-client-web-a-b'', asr_Name = ''web'', asr_Tags = [''a'', ''b''],
          asr_Port = 80, asr_Address = ''10.0.0.1'', asr_EnableTagOverride = False\<rparr>"
        "\<lparr>as_ID = ''_nomad-client-web-a-b'', as_Service = ''web'', as_Tags = [''b'', ''a''],
          as_Port = 80, as_Address = ''10.0.0.1'', as_EnableTagOverride = False\<rparr>"]
    compareConsulService_iff_tag_sets
    [of "\<lparr>asr_ID = ''_nomad-client-web-a-b'', asr_Name = ''web'', asr_Tags = [''a'', ''b''],
          asr_Port = 80, asr_Address = ''10.0.0.1'', asr_EnableTagOverride = False\<rparr>"
        "\<lparr>as_ID = ''_nomad-client-web-a-b'', as_Service = ''web'', as_Tags = [''a''],
          as_Port = 80, as_Address = ''10.0.0.1'', as_EnableTagOverride = False\<rparr>"]
  by auto

subsection \<open>Evaluating the model\<close>

lemmas syncer_eval =
  SetServices_def createService_def createCheckReg_def storeInGroup_def appendCheck_def
  SyncNow_def trySend_def NewSyncer_def SetAddrFinder_def SetDelegatedChecks_def
  generateConsulServiceID_def nomadServicePrefix_def GenerateServiceKey_def
  ServerDomain_def ClientDomain_def ServiceCheckHTTP_def ServiceCheckTCP_def
  ServiceCheckScript_def ErrorOrNil_def appendErr_def NewCheckRunner_def Let_def

lemmas example_eval =
  natToDec.simps intToDec_def exampleEnv_def exampleFinder_def exampleFactory_def
  nomadService_def redisService_def freshSyncer_def redisRegistration_def redisCheckRegistration_def executorSyncer_def
  foreignService_def foreignCheck_def

lemma executorSyncer_reachable:
  "SetServices exampleEnv freshSyncer ''executor-a1-web''
     [(GenerateServiceKey redisService, redisService)] = Some (None, executorSyncer)"
  by (simp add: syncer_eval example_eval)

subsection \<open>The ownership filter\<close>

text \<open>
  Claim C3 says that a service is kept if and only if its ID has the prefix
  \<open>"_nomad-" + domain + "-"\<close>, trailing hyphen included, for a known domain, and a check
  if and only if its owning service ID has. The filters test the prefix
  \<open>"_nomad-" + domain\<close> without the trailing hyphen: the syncer whose only domain is
  \<open>executor-a1-web\<close> keeps the service \<open>_nomad-executor-a1-web2-redis\<close> of the
  domain \<open>executor-a1-web2\<close>, and its check, although no known domain gives a prefix of
  that ID with the hyphen (the test \<open>ReapUnmatched\<close> makes).
\<close>

theorem filterConsulServices_keeps_foreign_domain:
  "map fst (servicesGroups executorSyncer) = [''executor-a1-web''] \<and>
   map fst (checkGroups executorSyncer) = [''executor-a1-web''] \<and>
   \<not> prefix (nomadServicePrefix @ ''-'' @ ''executor-a1-web'' @ ''-'') (as_ID foreignService) \<and>
   \<not> reapMatch (map fst (servicesGroups executorSyncer)) (as_ID foreignService) \<and>
   filterConsulServices executorSyncer [(as_ID foreignService, foreignService)]
     = [(as_ID foreignService, foreignService)] \<and>
   filterConsulChecks executorSyncer [(ac_CheckID foreignCheck, foreignCheck)]
     = [(ac_CheckID foreignCheck, foreignCheck)]"
  by (simp add: filterConsulServices_def filterConsulChecks_def matchesSomeDomain_def
      reapMatch_def syncer_eval example_eval)

subsection \<open>The immediate-sync signal\<close>

lemma SetServices_success_notifySyncCh:
  assumes "SetServices env c domain services = Some (None, c')"
  shows "notifySyncCh c' = trySend (notifySyncCh c)"
  using assms
  by (auto simp: SetServices_def SyncNow_def Let_def ErrorOrNil_def
      split: option.splits prod.splits if_splits)

lemma notifySyncCh_NewSyncer:
  "notifySyncCh NewSyncer = None"
  "notifySyncCh (SetAddrFinder c finder) = notifySyncCh c"
  "notifySyncCh (SetDelegatedChecks c types factory) = notifySyncCh c"
  by (simp_all add: NewSyncer_def SetAddrFinder_def SetDelegatedChecks_def)

lemma SyncNow_nil_channel: "notifySyncCh c = None \<Longrightarrow> SyncNow c = c"
  by (simp add: SyncNow_def trySend_def)

text \<open>
  Claim C2 says that after every successful \<open>SetServices\<close> an immediate-sync notification
  is pending. \<open>NewSyncer\<close> never makes the channel \<open>notifySyncCh\<close>, and no method assigns
  it, so it is nil: the send of \<open>SyncNow\<close> is never ready, its \<open>select\<close> takes the default
  branch, and after a successful \<open>SetServices\<close> the channel is still nil with nothing
  pending.
\<close>

theorem SetServices_nil_channel_nothing_pending:
  assumes "notifySyncCh c = None"
    and "SetServices env c domain services = Some (None, c')"
  shows "notifySyncCh c' = None \<and> \<not> pending (notifySyncCh c')"
  using SetServices_success_notifySyncCh[OF assms(2)] assms(1)
  by (simp add: trySend_def pending_def)

theorem SetServices_nil_channel_nothing_pending_witness:
  "notifySyncCh freshSyncer = None \<and>
   SetServices exampleEnv freshSyncer ''executor-a1-web''
     [(GenerateServiceKey redisService, redisService)] = Some (None, executorSyncer) \<and>
   notifySyncCh executorSyncer = None \<and> \<not> pending (notifySyncCh executorSyncer)"
proof -
  have h1: "notifySyncCh freshSyncer = None"
    by (simp add: freshSyncer_def NewSyncer_def SetAddrFinder_def)
  note h2 = executorSyncer_reachable
  from SetServices_nil_channel_nothing_pending[OF h1 h2] h1 h2 show ?thesis
    by blast
qed

subsection \<open>Periodic handlers\<close>

lemmas sync_eval =
  syncServices_def syncChecks_def filterConsulServices_def filterConsulChecks_def
  matchesSomeDomain_def calcServicesDiff_def calcChecksDiff_def mergedServices_def
  mergedChecks_def mergeConsulService_def mergeConsulCheck_def withState_def
  flattenedServices_def flattenedChecks_def compareConsulService_def compareConsulCheck_def
  syncMissingService_def syncChangedService_def syncRemovedService_def
  syncMissingCheck_def syncChangedCheck_def syncStaleCheck_def
  ServiceRegister_def deregisterService_def registerCheck_def deregisterCheck_def
  RunHandlers_def runHandler_def SyncServices_def memAPI_def Start_def Stop_def

lemmas world_eval =
  failingHandler_def passingHandler_def emptyAgentWorld_def ghostRegistration_def
  failingAgentWorld_def

lemma fold_runHandler:
  "fold runHandler handlers (errs, w) =
     (errs @ handlerErrors handlers w, handlersWorld handlers w)"
proof (induction handlers arbitrary: errs w)
  case Nil
  then show ?case by simp
next
  case (Cons h handlers)
  obtain name fn where h: "h = (name, fn)" by (cases h)
  obtain err w' where fn: "fn w = (err, w')" by (cases "fn w")
  show ?case
    using Cons.IH[of "appendErr err errs" w'] h fn
    by (cases err) (simp_all add: runHandler_def appendErr_def)
qed

lemma RunHandlers_eq:
  "RunHandlers handlers w = (ErrorOrNil (handlerErrors handlers w), handlersWorld handlers w)"
  by (simp add: RunHandlers_def fold_runHandler)

text \<open>
  Claim C9, as stated, fails: \<open>SyncServices\<close> returns the error of \<open>RunHandlers\<close> at once.
  With one failing handler in front of an empty agent no command is sent and the world
  is unchanged, where without the handler the same sync registers the service and its
  check: the service-sync and check-sync phases are not executed after a handler fails.
\<close>

theorem SyncServices_handler_failure_skips_sync:
  "SyncServices memAPI [(''discover'', failingHandler)] emptyAgentWorld
     = (Some (MultiError [External ''handler failed'']), emptyAgentWorld) \<and>
   calls emptyAgentWorld = [] \<and>
   calls (snd (SyncServices memAPI [] emptyAgentWorld))
     = [CallServiceRegister redisRegistration, CallCheckRegister redisCheckRegistration]"
  by (simp add: sync_eval world_eval syncer_eval example_eval)

text \<open>
  Claim C9, amended: \<open>RunHandlers\<close> runs every handler, also after one has failed, and
  aggregates the errors they return into one multi-error. When one or more handlers
  return errors, \<open>SyncServices\<close> returns that multi-error with the world as the handlers
  left it: the service-sync and check-sync phases are not executed. When no handler
  fails, the service sync runs, and the check sync runs if the service sync returned no
  error.
\<close>

theorem SyncServices_after_handlers:
  "RunHandlers handlers w = (ErrorOrNil (handlerErrors handlers w), handlersWorld handlers w) \<and>
   (handlerErrors handlers w \<noteq> [] \<longrightarrow>
      SyncServices api handlers w
        = (Some (MultiError (handlerErrors handlers w)), handlersWorld handlers w)) \<and>
   (handlerErrors handlers w = [] \<longrightarrow>
      SyncServices api handlers w
        = (case syncServices api (handlersWorld handlers w) of
             (Some err, w2) \<Rightarrow> (Some err, w2)
           | (None, w2) \<Rightarrow> syncChecks api w2))"
  by (simp add: SyncServices_def RunHandlers_eq ErrorOrNil_def)

theorem SyncServices_after_handlers_witness:
  "handlerErrors
     [(''a'', failingHandler), (''b'', passingHandler), (''c'', failingHandler)] emptyAgentWorld
     = [External ''handler failed'', External ''handler failed''] \<and>
   SyncServices memAPI
     [(''a'', failingHandler), (''b'', passingHandler), (''c'', failingHandler)] emptyAgentWorld
     = (Some (MultiError [External ''handler failed'', External ''handler failed'']),
        emptyAgentWorld)"
proof -
  let ?hs = "[(''a'', failingHandler), (''b'', passingHandler), (''c'', failingHandler)]"
  have e: "handlerErrors ?hs emptyAgentWorld = [External ''handler failed'', External ''handler failed'']"
    by (simp add: failingHandler_def passingHandler_def)
  have w: "handlersWorld ?hs emptyAgentWorld = emptyAgentWorld"
    by (simp add: failingHandler_def passingHandler_def)
  from SyncServices_after_handlers[of ?hs emptyAgentWorld memAPI] e w show ?thesis
    by simp
qed

subsection \<open>Tracked state\<close>

text \<open>
  For any agent, whatever its calls return: after the step of the missing loop the
  registration is tracked, and after the step of the stale loop the ID is not.
\<close>

lemma syncMissingService_tracks:
  "map_of (trackedServices (syncer (snd (syncMissingService api service st)))) (asr_ID service)
     = Some service"
  by (simp add: syncMissingService_def ServiceRegister_def update_conv' split: prod.splits)

lemma syncRemovedService_untracks:
  "map_of (trackedServices (syncer (snd (syncRemovedService api service st)))) (asr_ID service)
     = None"
  by (simp add: syncRemovedService_def deregisterService_def delete_conv' split: prod.splits)

lemma syncMissingCheck_tracks:
  "map_of (trackedChecks (syncer (snd (syncMissingCheck api check st)))) (acr_ID check)
     = Some check"
  by (simp add: syncMissingCheck_def registerCheck_def Let_def update_conv'
      split: prod.splits option.splits)

lemma syncStaleCheck_untracks:
  "map_of (trackedChecks (syncer (snd (syncStaleCheck api check st)))) (acr_ID check) = None"
  by (simp add: syncStaleCheck_def deregisterCheck_def Let_def delete_conv'
      split: prod.splits option.splits)

text \<open>
  Claim C4 says that a tracked entry is written only after the agent call for its ID
  succeeded and is left unchanged when the call fails. In \<open>syncServices\<close> and
  \<open>syncChecks\<close> the write to \<open>trackedServices\<close> and \<open>trackedChecks\<close> follows the call
  whatever it returned. In front of an agent that fails every command, the sync returns
  the errors, yet the redis service and its check, whose registrations failed, are now
  tracked, and the ghost service, whose deregistration failed and which the agent still
  holds, is no longer tracked.
\<close>

theorem syncServices_tracks_failed_calls:
  "fst (syncServices memAPI failingAgentWorld)
     = Some (MultiError [External ''agent unreachable'', External ''agent unreachable'']) \<and>
   agent (snd (syncServices memAPI failingAgentWorld)) = agent failingAgentWorld \<and>
   map_of (trackedServices (syncer failingAgentWorld)) (asr_ID redisRegistration) = None \<and>
   map_of (trackedServices (syncer (snd (syncServices memAPI failingAgentWorld))))
     (asr_ID redisRegistration) = Some redisRegistration \<and>
   map_of (trackedServices (syncer failingAgentWorld)) (asr_ID ghostRegistration)
     = Some ghostRegistration \<and>
   map_of (trackedServices (syncer (snd (syncServices memAPI failingAgentWorld))))
     (asr_ID ghostRegistration) = None \<and>
   fst (syncChecks memAPI failingAgentWorld)
     = Some (MultiError [External ''agent unreachable'']) \<and>
   map_of (trackedChecks (syncer failingAgentWorld)) (acr_ID redisCheckRegistration) = None \<and>
   map_of (trackedChecks (syncer (snd (syncChecks memAPI failingAgentWorld))))
     (acr_ID redisCheckRegistration) = Some redisCheckRegistration"
  by (simp add: sync_eval world_eval syncer_eval example_eval)

subsection \<open>SetServices: the construction loop\<close>

lemmas example_eval2 =
  scriptCheck_def grpcCheck_def jobService_def brokenService_def delegatingSyncer_def
  jobRegistration_def jobRunner_def orphanRunnerSyncer_def agreeingWorld_def

lemma createCheckReg_Inl:
  "createCheckReg env chk reg = Inl e \<longleftrightarrow>
     sc_Type chk \<notin> {ServiceCheckHTTP, ServiceCheckTCP, ServiceCheckScript} \<and>
     e = CheckTypeNotValid (sc_Type chk)"
  by (auto simp: createCheckReg_def Let_def)

lemma createCheckReg_Type:
  "createCheckReg env chk reg = Inr (chkReg, chk') \<Longrightarrow> sc_Type chk' = sc_Type chk"
  by (auto simp: createCheckReg_def Let_def split: if_splits)

lemma registerChecks_frame:
  "registerChecks env c k reg chks (rs, rc, errs, run) = Some (rs', rc', errs', run') \<Longrightarrow>
     rs' = rs \<and> (\<exists>ex. errs' = errs @ ex)"
proof (induction chks arbitrary: rc errs run)
  case Nil
  then show ?case by simp
next
  case (Cons chk chks)
  then show ?case
    by (fastforce split: sum.splits prod.splits option.splits if_splits)
qed

lemma registerChecks_invalid:
  "registerChecks env c k reg chks (rs, rc, errs, run) = Some (rs', rc', errs', run') \<Longrightarrow>
   chk \<in> set chks \<Longrightarrow>
   sc_Type chk \<notin> {ServiceCheckHTTP, ServiceCheckTCP, ServiceCheckScript} \<Longrightarrow>
   CheckTypeNotValid (sc_Type chk) \<in> set errs'"
proof (induction chks arbitrary: rc errs run)
  case Nil
  then show ?case by simp
next
  case (Cons a chks)
  show ?case
  proof (cases "chk = a")
    case True
    have "createCheckReg env a reg = Inl (CheckTypeNotValid (sc_Type a))"
      using Cons.prems(3) True by (simp add: createCheckReg_Inl)
    with Cons.prems(1) have
      "registerChecks env c k reg chks (rs, rc, errs @ [CheckTypeNotValid (sc_Type a)], run)
         = Some (rs', rc', errs', run')" by simp
    from registerChecks_frame[OF this] True show ?thesis by auto
  next
    case False
    with Cons.prems(2) have "chk \<in> set chks" by simp
    with Cons.IH Cons.prems(1,3) show ?thesis
      by (auto split: sum.splits prod.splits option.splits if_splits)
  qed
qed

lemma createService_not_Inl: "createService c svc d k \<noteq> Some (Inl e)"
  by (auto simp: createService_def Let_def split: option.splits prod.splits)

lemma buildRegistrations_Cons_cases:
  assumes "buildRegistrations env c d ((k, svc) # services) (rs, rc, errs, run) = Some st'"
  obtains reg rc1 errs1 run1 where
    "createService c svc d k = Some (Inr reg)"
    "registerChecks env c k reg (s_Checks svc) (AList.update k reg rs, rc, errs, run)
       = Some (AList.update k reg rs, rc1, errs1, run1)"
    "buildRegistrations env c d services (AList.update k reg rs, rc1, errs1, run1) = Some st'"
proof (cases "createService c svc d k")
  case None
  with assms show ?thesis by simp
next
  case (Some r)
  show ?thesis
  proof (cases r)
    case (Inl e)
    with Some createService_not_Inl show ?thesis by blast
  next
    case (Inr reg)
    with Some assms obtain st1 where
      rc: "registerChecks env c k reg (s_Checks svc) (AList.update k reg rs, rc, errs, run) = Some st1"
      and br: "buildRegistrations env c d services st1 = Some st'"
      by (auto split: option.splits)
    obtain rs1 rc1 errs1 run1 where st1: "st1 = (rs1, rc1, errs1, run1)" by (cases st1)
    from registerChecks_frame[OF rc[unfolded st1]] have "rs1 = AList.update k reg rs" by simp
    with that[of reg rc1 errs1 run1] Some Inr rc br st1 show ?thesis by simp
  qed
qed

lemma buildRegistrations_errs:
  "buildRegistrations env c d services (rs, rc, errs, run) = Some (rs', rc', errs', run') \<Longrightarrow>
     \<exists>ex. errs' = errs @ ex"
proof (induction services arbitrary: rs rc errs run)
  case Nil
  then show ?case by simp
next
  case (Cons a services)
  obtain k svc where a: "a = (k, svc)" by (cases a)
  from Cons.prems[unfolded a] show ?case
  proof (cases rule: buildRegistrations_Cons_cases)
    case (1 reg rc1 errs1 run1)
    from registerChecks_frame[OF 1(2)] Cons.IH[OF 1(3)] show ?thesis by auto
  qed
qed

lemma buildRegistrations_invalid:
  "buildRegistrations env c d services (rs, rc, errs, run) = Some (rs', rc', errs', run') \<Longrightarrow>
   (k, svc) \<in> set services \<Longrightarrow> chk \<in> set (s_Checks svc) \<Longrightarrow>
   sc_Type chk \<notin> {ServiceCheckHTTP, ServiceCheckTCP, ServiceCheckScript} \<Longrightarrow>
   CheckTypeNotValid (sc_Type chk) \<in> set errs'"
proof (induction services arbitrary: rs rc errs run)
  case Nil
  then show ?case by simp
next
  case (Cons a services)
  obtain k0 svc0 where a: "a = (k0, svc0)" by (cases a)
  from Cons.prems(1)[unfolded a] show ?case
  proof (cases rule: buildRegistrations_Cons_cases)
    case (1 reg rc1 errs1 run1)
    show ?thesis
    proof (cases "(k, svc) = a")
      case True
      with a Cons.prems(3,4) registerChecks_invalid[OF 1(2)]
      have "CheckTypeNotValid (sc_Type chk) \<in> set errs1" by auto
      with buildRegistrations_errs[OF 1(3)] show ?thesis by auto
    next
      case False
      with Cons.prems(2) have "(k, svc) \<in> set services" by simp
      from Cons.IH[OF 1(3) this Cons.prems(3,4)] show ?thesis .
    qed
  qed
qed

subsection \<open>SetServices: the store loops\<close>

lemma groupLookup_storeInGroup:
  "groupLookup (storeInGroup d k v g) d' k' = (if d' = d \<and> k' = k then Some v else groupLookup g d' k')"
  by (auto simp: groupLookup_def storeInGroup_def update_conv' split: option.splits)

lemma map_of_storeInGroup_other:
  "d' \<noteq> d \<Longrightarrow> map_of (storeInGroup d k v g) d' = map_of g d'"
  by (auto simp: storeInGroup_def update_conv' split: option.splits)

lemma fold_store_other:
  "d' \<noteq> d \<Longrightarrow> map_of (fold (\<lambda>(k, v). storeInGroup d k v) regs g) d' = map_of g d'"
  by (induction regs arbitrary: g) (auto simp: map_of_storeInGroup_other)

lemma fold_store_lookup:
  "distinct (map fst regs) \<Longrightarrow>
   groupLookup (fold (\<lambda>(k, v). storeInGroup d k v) regs g) d k' =
     (case map_of regs k' of Some v \<Rightarrow> Some v | None \<Rightarrow> groupLookup g d k')"
proof (induction regs arbitrary: g)
  case Nil
  then show ?case by simp
next
  case (Cons a regs)
  obtain k v where a: "a = (k, v)" by (cases a)
  from Cons.prems a have d: "distinct (map fst regs)" and nk: "map_of regs k = None"
    by (auto simp: map_of_eq_None_iff)
  show ?case
    using Cons.IH[OF d, of "storeInGroup d k v g"] a nk
    by (auto simp: groupLookup_storeInGroup split: option.splits)
qed

lemma buildRegistrations_regS:
  "buildRegistrations env c d services (rs, rc, errs, run) = Some (rs', rc', errs', run') \<Longrightarrow>
   distinct (map fst services) \<Longrightarrow>
   (distinct (map fst rs) \<longrightarrow> distinct (map fst rs')) \<and>
   (\<forall>k. map_of rs' k =
      (case map_of services k of
         None \<Rightarrow> map_of rs k
       | Some svc \<Rightarrow> (case createService c svc d k of Some (Inr reg) \<Rightarrow> Some reg | _ \<Rightarrow> None)))"
proof (induction services arbitrary: rs rc errs run)
  case Nil
  then show ?case by simp
next
  case (Cons a services)
  obtain k0 svc0 where a: "a = (k0, svc0)" by (cases a)
  from Cons.prems(2) a have d: "distinct (map fst services)" and nk: "map_of services k0 = None"
    by (auto simp: map_of_eq_None_iff)
  from Cons.prems(1)[unfolded a] show ?case
  proof (cases rule: buildRegistrations_Cons_cases)
    case (1 reg rc1 errs1 run1)
    from Cons.IH[OF 1(3) d] 1(1) a nk show ?thesis
      by (auto simp: update_conv' distinct_update split: option.splits)
  qed
qed

lemma derived_Cons:
  "derivedChecks env reg (chk # chks) =
     (case createCheckReg env chk reg of Inl e \<Rightarrow> {} | Inr (chkReg, chk') \<Rightarrow> {chkReg}) \<union> derivedChecks env reg chks"
  "derivedPlainChecks env c reg (chk # chks) =
     (case createCheckReg env chk reg of Inl e \<Rightarrow> {} | Inr (chkReg, chk') \<Rightarrow> if sc_Type chk \<in> delegateChecks c then {} else {chkReg}) \<union> derivedPlainChecks env c reg chks"
  "derivedDelegatedIDs env c reg (chk # chks) =
     (case createCheckReg env chk reg of Inl e \<Rightarrow> {} | Inr (chkReg, chk') \<Rightarrow> if sc_Type chk \<in> delegateChecks c then {acr_ID chkReg} else {}) \<union> derivedDelegatedIDs env c reg chks"
  by (auto simp: derivedChecks_def derivedPlainChecks_def derivedDelegatedIDs_def split: sum.splits)

lemma derived_Nil:
  "derivedChecks env reg [] = {}" "derivedPlainChecks env c reg [] = {}" "derivedDelegatedIDs env c reg [] = {}"
  by (auto simp: derivedChecks_def derivedPlainChecks_def derivedDelegatedIDs_def)

lemma map_of_appendCheck:
  "map_of (appendCheck k chkReg rc) = (map_of rc)(k \<mapsto> (case map_of rc k of None \<Rightarrow> [] | Some l \<Rightarrow> l) @ [chkReg])"
  by (simp add: appendCheck_def update_conv')

lemma distinct_appendCheck:
  "distinct (map fst rc) \<Longrightarrow> distinct (map fst (appendCheck k chkReg rc))"
  by (simp add: appendCheck_def distinct_update)

lemma appendCheck_step:
  assumes "map_of rc' =
     (if new' = [] then map_of (appendCheck k chkReg rc)
      else (map_of (appendCheck k chkReg rc))
             (k \<mapsto> (case map_of (appendCheck k chkReg rc) k of None \<Rightarrow> [] | Some l \<Rightarrow> l) @ new'))"
  shows "map_of rc' = (map_of rc)(k \<mapsto> (case map_of rc k of None \<Rightarrow> [] | Some l \<Rightarrow> l) @ (chkReg # new'))"
  using assms by (auto simp: map_of_appendCheck)

lemma registerChecks_effect:
  "registerChecks env c k reg chks (rs, rc, errs, run) = Some (rs', rc', errs', run') \<Longrightarrow>
   \<exists>new.
     map_of rc' = (if new = [] then map_of rc
                   else (map_of rc)(k \<mapsto> (case map_of rc k of None \<Rightarrow> [] | Some l \<Rightarrow> l) @ new)) \<and>
     set new \<subseteq> derivedChecks env reg chks \<and>
     derivedPlainChecks env c reg chks \<subseteq> set new \<and>
     dom (map_of run) \<subseteq> dom (map_of run') \<and>
     (factoryKeepsID c \<longrightarrow>
        dom (map_of run') - dom (map_of run) \<subseteq> acr_ID ` set new \<inter> derivedDelegatedIDs env c reg chks \<and>
        (errs' = errs \<longrightarrow> derivedDelegatedIDs env c reg chks \<subseteq> dom (map_of run')))"
proof (induction chks arbitrary: rc errs run)
  case Nil
  then show ?case by (auto simp: derived_Nil intro: exI[of _ "[]"])
next
  case (Cons chk chks)
  show ?case
  proof (cases "createCheckReg env chk reg")
    case (Inl e)
    with Cons.prems have r: "registerChecks env c k reg chks (rs, rc, errs @ [e], run) = Some (rs', rc', errs', run')"
      by simp
    from registerChecks_frame[OF r] have ne: "errs' \<noteq> errs" by auto
    from Cons.IH[OF r] obtain new where
      "map_of rc' = (if new = [] then map_of rc
                   else (map_of rc)(k \<mapsto> (case map_of rc k of None \<Rightarrow> [] | Some l \<Rightarrow> l) @ new))"
      "set new \<subseteq> derivedChecks env reg chks"
      "derivedPlainChecks env c reg chks \<subseteq> set new"
      "dom (map_of run) \<subseteq> dom (map_of run')"
      "factoryKeepsID c \<longrightarrow>
        dom (map_of run') - dom (map_of run) \<subseteq> acr_ID ` set new \<inter> derivedDelegatedIDs env c reg chks"
      by blast
    then show ?thesis using Inl ne
      by (intro exI[of _ new]) (auto simp: derived_Cons)
  next
    case (Inr p)
    obtain chkReg chk' where p: "p = (chkReg, chk')" by (cases p)
    have ty: "sc_Type chk' = sc_Type chk" using createCheckReg_Type Inr p by blast
    show ?thesis
    proof (cases "sc_Type chk \<in> delegateChecks c")
      case False
      with Cons.prems Inr p ty have r:
        "registerChecks env c k reg chks (rs, appendCheck k chkReg rc, errs, run) = Some (rs', rc', errs', run')"
        by simp
      from Cons.IH[OF r] obtain new' where n:
        "map_of rc' =
           (if new' = [] then map_of (appendCheck k chkReg rc)
            else (map_of (appendCheck k chkReg rc))
                   (k \<mapsto> (case map_of (appendCheck k chkReg rc) k of None \<Rightarrow> [] | Some l \<Rightarrow> l) @ new'))"
        "set new' \<subseteq> derivedChecks env reg chks"
        "derivedPlainChecks env c reg chks \<subseteq> set new'"
        "dom (map_of run) \<subseteq> dom (map_of run')"
        "factoryKeepsID c \<longrightarrow>
          dom (map_of run') - dom (map_of run) \<subseteq> acr_ID ` set new' \<inter> derivedDelegatedIDs env c reg chks \<and>
          (errs' = errs \<longrightarrow> derivedDelegatedIDs env c reg chks \<subseteq> dom (map_of run'))"
        by blast
      show ?thesis
        using appendCheck_step[OF n(1)] n(2-5) Inr p False
        by (intro exI[of _ "chkReg # new'"]) (auto simp: derived_Cons)
    next
      case True
      show ?thesis
      proof (cases "map_of run (acr_ID chkReg)")
        case (Some cr)
        with Cons.prems Inr p ty True have r:
          "registerChecks env c k reg chks (rs, rc, errs, run) = Some (rs', rc', errs', run')"
          by simp
        from Cons.IH[OF r] obtain new' where n:
          "map_of rc' = (if new' = [] then map_of rc
                   else (map_of rc)(k \<mapsto> (case map_of rc k of None \<Rightarrow> [] | Some l \<Rightarrow> l) @ new'))"
          "set new' \<subseteq> derivedChecks env reg chks"
          "derivedPlainChecks env c reg chks \<subseteq> set new'"
          "dom (map_of run) \<subseteq> dom (map_of run')"
          "factoryKeepsID c \<longrightarrow>
            dom (map_of run') - dom (map_of run) \<subseteq> acr_ID ` set new' \<inter> derivedDelegatedIDs env c reg chks \<and>
            (errs' = errs \<longrightarrow> derivedDelegatedIDs env c reg chks \<subseteq> dom (map_of run'))"
          by blast
        have "acr_ID chkReg \<in> dom (map_of run')" using Some n(4) by auto
        then show ?thesis
          using n Inr p True
          by (intro exI[of _ new']) (auto simp: derived_Cons)
      next
        case None
        with Cons.prems Inr p ty True obtain factory where f: "createDelegatedCheck c = Some factory"
          by (auto split: option.splits)
        show ?thesis
        proof (cases "factory chk' (acr_ID chkReg)")
          case (Inl e)
          with Cons.prems Inr p ty True None f have r:
            "registerChecks env c k reg chks (rs, rc, errs @ [e], run) = Some (rs', rc', errs', run')"
            by simp
          from registerChecks_frame[OF r] have ne: "errs' \<noteq> errs" by auto
          from Cons.IH[OF r] obtain new' where n:
            "map_of rc' = (if new' = [] then map_of rc
                     else (map_of rc)(k \<mapsto> (case map_of rc k of None \<Rightarrow> [] | Some l \<Rightarrow> l) @ new'))"
            "set new' \<subseteq> derivedChecks env reg chks"
            "derivedPlainChecks env c reg chks \<subseteq> set new'"
            "dom (map_of run) \<subseteq> dom (map_of run')"
            "factoryKeepsID c \<longrightarrow>
              dom (map_of run') - dom (map_of run) \<subseteq> acr_ID ` set new' \<inter> derivedDelegatedIDs env c reg chks"
            by blast
          show ?thesis
            using n ne Inr p True
            by (intro exI[of _ new']) (auto simp: derived_Cons)
        next
          case (Inr nc)
          with Cons.prems \<open>createCheckReg env chk reg = Inr p\<close> p ty True None f have r:
            "registerChecks env c k reg chks
               (rs, appendCheck k chkReg rc, errs, AList.update (ck_ID nc) (NewCheckRunner nc) run)
               = Some (rs', rc', errs', run')"
            by simp
          let ?run1 = "AList.update (ck_ID nc) (NewCheckRunner nc) run"
          have d1: "dom (map_of ?run1) = insert (ck_ID nc) (dom (map_of run))"
            by (simp add: update_conv')
          have id: "factoryKeepsID c \<longrightarrow> ck_ID nc = acr_ID chkReg"
            using f Inr by (auto simp: factoryKeepsID_def)
          from Cons.IH[OF r] obtain new' where n:
            "map_of rc' =
               (if new' = [] then map_of (appendCheck k chkReg rc)
                else (map_of (appendCheck k chkReg rc))
                       (k \<mapsto> (case map_of (appendCheck k chkReg rc) k of None \<Rightarrow> [] | Some l \<Rightarrow> l) @ new'))"
            "set new' \<subseteq> derivedChecks env reg chks"
            "derivedPlainChecks env c reg chks \<subseteq> set new'"
            "dom (map_of ?run1) \<subseteq> dom (map_of run')"
            "factoryKeepsID c \<longrightarrow>
              dom (map_of run') - dom (map_of ?run1) \<subseteq> acr_ID ` set new' \<inter> derivedDelegatedIDs env c reg chks \<and>
              (errs' = errs \<longrightarrow> derivedDelegatedIDs env c reg chks \<subseteq> dom (map_of run'))"
            by blast
          have dd: "derivedDelegatedIDs env c reg (chk # chks)
                      = insert (acr_ID chkReg) (derivedDelegatedIDs env c reg chks)"
            using \<open>createCheckReg env chk reg = Inr p\<close> p True by (simp add: derived_Cons)
          have c2: "set (chkReg # new') \<subseteq> derivedChecks env reg (chk # chks)"
            using n(2) \<open>createCheckReg env chk reg = Inr p\<close> p by (auto simp: derived_Cons)
          have c3: "derivedPlainChecks env c reg (chk # chks) \<subseteq> set (chkReg # new')"
            using n(3) \<open>createCheckReg env chk reg = Inr p\<close> p True by (auto simp: derived_Cons)
          have c4: "dom (map_of run) \<subseteq> dom (map_of run')"
            using n(4)[unfolded d1] by blast
          have c5: "factoryKeepsID c \<longrightarrow>
              dom (map_of run') - dom (map_of run)
                \<subseteq> acr_ID ` set (chkReg # new') \<inter> derivedDelegatedIDs env c reg (chk # chks) \<and>
              (errs' = errs \<longrightarrow> derivedDelegatedIDs env c reg (chk # chks) \<subseteq> dom (map_of run'))"
          proof
            assume fk: "factoryKeepsID c"
            with id have i: "ck_ID nc = acr_ID chkReg" by simp
            from n(5) fk have
              a: "dom (map_of run') - dom (map_of ?run1)
                    \<subseteq> acr_ID ` set new' \<inter> derivedDelegatedIDs env c reg chks"
              and b: "errs' = errs \<longrightarrow> derivedDelegatedIDs env c reg chks \<subseteq> dom (map_of run')"
              by blast+
            have "dom (map_of run') - dom (map_of run)
                    \<subseteq> insert (acr_ID chkReg) (acr_ID ` set new') \<inter> insert (acr_ID chkReg) (derivedDelegatedIDs env c reg chks)"
              using a[unfolded d1, unfolded i] by blast
            moreover have "errs' = errs \<longrightarrow> insert (acr_ID chkReg) (derivedDelegatedIDs env c reg chks) \<subseteq> dom (map_of run')"
              using b n(4)[unfolded d1, unfolded i] by blast
            ultimately show "dom (map_of run') - dom (map_of run)
                \<subseteq> acr_ID ` set (chkReg # new') \<inter> derivedDelegatedIDs env c reg (chk # chks) \<and>
              (errs' = errs \<longrightarrow> derivedDelegatedIDs env c reg (chk # chks) \<subseteq> dom (map_of run'))"
              by (simp add: dd)
          qed
          have c1: "map_of rc' = (if chkReg # new' = [] then map_of rc
                   else (map_of rc)(k \<mapsto> (case map_of rc k of None \<Rightarrow> [] | Some l \<Rightarrow> l) @ (chkReg # new')))"
            using appendCheck_step[OF n(1)] by simp
          show ?thesis
            using c1 c2 c3 c4 c5
            by (intro exI[of _ "chkReg # new'"] conjI) assumption+
        qed
      qed
    qed
  qed
qed

lemma registerChecks_other_key:
  assumes "registerChecks env c k reg chks (rs, rc, errs, run) = Some (rs', rc', errs', run')"
    and "k' \<noteq> k"
  shows "map_of rc' k' = map_of rc k'"
  using registerChecks_effect[OF assms(1)] assms(2) by (auto split: if_splits)

lemma buildRegistrations_frame:
  "buildRegistrations env c d services (rs, rc, errs, run) = Some (rs', rc', errs', run') \<Longrightarrow>
     (\<forall>k. map_of services k = None \<longrightarrow> map_of rc' k = map_of rc k) \<and>
     dom (map_of run) \<subseteq> dom (map_of run')"
proof (induction services arbitrary: rs rc errs run)
  case Nil
  then show ?case by simp
next
  case (Cons a services)
  obtain k0 svc0 where a: "a = (k0, svc0)" by (cases a)
  from Cons.prems(1)[unfolded a] show ?case
  proof (cases rule: buildRegistrations_Cons_cases)
    case (1 reg rc1 errs1 run1)
    from registerChecks_effect[OF 1(2)] have r: "dom (map_of run) \<subseteq> dom (map_of run1)" by blast
    from Cons.IH[OF 1(3)] have
      ih1: "\<forall>k. map_of services k = None \<longrightarrow> map_of rc' k = map_of rc1 k"
      and ih2: "dom (map_of run1) \<subseteq> dom (map_of run')" by blast+
    have "\<forall>k. map_of (a # services) k = None \<longrightarrow> map_of rc' k = map_of rc k"
    proof (intro allI impI)
      fix k assume "map_of (a # services) k = None"
      with a have "k \<noteq> k0" "map_of services k = None" by (auto split: if_splits)
      with ih1 registerChecks_other_key[OF 1(2)] show "map_of rc' k = map_of rc k" by simp
    qed
    with r ih2 show ?thesis by blast
  qed
qed

lemma buildRegistrations_checks:
  "buildRegistrations env c d services (rs, rc, errs, run) = Some (rs', rc', errs', run') \<Longrightarrow>
   distinct (map fst services) \<Longrightarrow>
   map_of services k = Some svc \<Longrightarrow> createService c svc d k = Some (Inr reg) \<Longrightarrow>
   \<exists>new.
     map_of rc' k = (if new = [] then map_of rc k
                     else Some ((case map_of rc k of None \<Rightarrow> [] | Some l \<Rightarrow> l) @ new)) \<and>
     set new \<subseteq> derivedChecks env reg (s_Checks svc) \<and>
     derivedPlainChecks env c reg (s_Checks svc) \<subseteq> set new \<and>
     (factoryKeepsID c \<longrightarrow> errs' = errs \<longrightarrow>
        derivedDelegatedIDs env c reg (s_Checks svc) \<subseteq> dom (map_of run'))"
proof (induction services arbitrary: rs rc errs run)
  case Nil
  then show ?case by simp
next
  case (Cons a services)
  obtain k0 svc0 where a: "a = (k0, svc0)" by (cases a)
  from Cons.prems(2) a have d: "distinct (map fst services)" and nk: "map_of services k0 = None"
    by (auto simp: map_of_eq_None_iff)
  from Cons.prems(1)[unfolded a] show ?case
  proof (cases rule: buildRegistrations_Cons_cases)
    case (1 reg0 rc1 errs1 run1)
    from registerChecks_frame[OF 1(2)] obtain ex1 where ex1: "errs1 = errs @ ex1" by blast
    from buildRegistrations_errs[OF 1(3)] obtain ex2 where ex2: "errs' = errs1 @ ex2" by blast
    have same: "errs' = errs \<Longrightarrow> errs1 = errs \<and> errs' = errs1" using ex1 ex2 by simp
    from buildRegistrations_frame[OF 1(3)] have
      fr: "\<forall>k. map_of services k = None \<longrightarrow> map_of rc' k = map_of rc1 k"
      and rr: "dom (map_of run1) \<subseteq> dom (map_of run')" by blast+
    show ?thesis
    proof (cases "k = k0")
      case True
      with Cons.prems(3,4) a 1(1) have svc: "svc = svc0" and reg: "reg = reg0" by auto
      from registerChecks_effect[OF 1(2)] obtain new where n:
        "map_of rc1 = (if new = [] then map_of rc
                   else (map_of rc)(k0 \<mapsto> (case map_of rc k0 of None \<Rightarrow> [] | Some l \<Rightarrow> l) @ new))"
        "set new \<subseteq> derivedChecks env reg0 (s_Checks svc0)"
        "derivedPlainChecks env c reg0 (s_Checks svc0) \<subseteq> set new"
        "factoryKeepsID c \<longrightarrow> errs1 = errs \<longrightarrow>
           derivedDelegatedIDs env c reg0 (s_Checks svc0) \<subseteq> dom (map_of run1)"
        by blast
      have m: "map_of rc' k0 = map_of rc1 k0" using fr nk by simp
      have c1: "map_of rc' k = (if new = [] then map_of rc k
                     else Some ((case map_of rc k of None \<Rightarrow> [] | Some l \<Rightarrow> l) @ new))"
        using m n(1) True by simp
      have c4: "factoryKeepsID c \<longrightarrow> errs' = errs \<longrightarrow>
        derivedDelegatedIDs env c reg (s_Checks svc) \<subseteq> dom (map_of run')"
        using n(4) same rr svc reg by blast
      from c1 n(2,3) c4 show ?thesis unfolding svc reg by blast
    next
      case False
      with Cons.prems(3) a have ms: "map_of services k = Some svc" by simp
      from Cons.IH[OF 1(3) d ms Cons.prems(4)] obtain new where n:
        "map_of rc' k = (if new = [] then map_of rc1 k
                     else Some ((case map_of rc1 k of None \<Rightarrow> [] | Some l \<Rightarrow> l) @ new))"
        "set new \<subseteq> derivedChecks env reg (s_Checks svc)"
        "derivedPlainChecks env c reg (s_Checks svc) \<subseteq> set new"
        "factoryKeepsID c \<longrightarrow> errs' = errs1 \<longrightarrow>
           derivedDelegatedIDs env c reg (s_Checks svc) \<subseteq> dom (map_of run')"
        by blast
      have e: "map_of rc1 k = map_of rc k" using registerChecks_other_key[OF 1(2) False] .
      have c4: "factoryKeepsID c \<longrightarrow> errs' = errs \<longrightarrow>
        derivedDelegatedIDs env c reg (s_Checks svc) \<subseteq> dom (map_of run')"
        using n(4) same by blast
      from n(1)[unfolded e] n(2,3) c4 show ?thesis by blast
    qed
  qed
qed

lemma buildRegistrations_new_runners:
  "buildRegistrations env c d services (rs, rc, errs, run) = Some (rs', rc', errs', run') \<Longrightarrow>
   distinct (map fst services) \<Longrightarrow> factoryKeepsID c \<Longrightarrow>
   ident \<in> dom (map_of run') \<Longrightarrow> ident \<notin> dom (map_of run) \<Longrightarrow>
   \<exists>k svc reg chks.
     map_of services k = Some svc \<and> createService c svc d k = Some (Inr reg) \<and>
     ident \<in> derivedDelegatedIDs env c reg (s_Checks svc) \<and>
     map_of rc' k = Some chks \<and> ident \<in> acr_ID ` set chks"
proof (induction services arbitrary: rs rc errs run)
  case Nil
  then show ?case by simp
next
  case (Cons a services)
  obtain k0 svc0 where a: "a = (k0, svc0)" by (cases a)
  from Cons.prems(2) a have d: "distinct (map fst services)" and nk: "map_of services k0 = None"
    by (auto simp: map_of_eq_None_iff)
  from Cons.prems(1)[unfolded a] show ?case
  proof (cases rule: buildRegistrations_Cons_cases)
    case (1 reg0 rc1 errs1 run1)
    show ?thesis
    proof (cases "ident \<in> dom (map_of run1)")
      case True
      from registerChecks_effect[OF 1(2)] Cons.prems(3) obtain new where n:
        "map_of rc1 = (if new = [] then map_of rc
                   else (map_of rc)(k0 \<mapsto> (case map_of rc k0 of None \<Rightarrow> [] | Some l \<Rightarrow> l) @ new))"
        "dom (map_of run1) - dom (map_of run)
           \<subseteq> acr_ID ` set new \<inter> derivedDelegatedIDs env c reg0 (s_Checks svc0)"
        by blast
      from n(2) True Cons.prems(5) have i1: "ident \<in> acr_ID ` set new"
        and i2: "ident \<in> derivedDelegatedIDs env c reg0 (s_Checks svc0)" by blast+
      from i1 have "new \<noteq> []" by auto
      with n(1) have "map_of rc1 k0 = Some ((case map_of rc k0 of None \<Rightarrow> [] | Some l \<Rightarrow> l) @ new)"
        by simp
      moreover from buildRegistrations_frame[OF 1(3)] nk have "map_of rc' k0 = map_of rc1 k0" by simp
      ultimately have m: "map_of rc' k0 = Some ((case map_of rc k0 of None \<Rightarrow> [] | Some l \<Rightarrow> l) @ new)"
        by simp
      have "ident \<in> acr_ID ` set ((case map_of rc k0 of None \<Rightarrow> [] | Some l \<Rightarrow> l) @ new)"
        using i1 by auto
      with m i2 1(1) a show ?thesis
        by (intro exI[of _ k0] exI[of _ svc0] exI[of _ reg0]) auto
    next
      case False
      from Cons.IH[OF 1(3) d Cons.prems(3,4) False] obtain k svc reg chks where r:
        "map_of services k = Some svc" "createService c svc d k = Some (Inr reg)"
        "ident \<in> derivedDelegatedIDs env c reg (s_Checks svc)"
        "map_of rc' k = Some chks" "ident \<in> acr_ID ` set chks"
        by blast
      from r(1) nk have "k \<noteq> k0" by auto
      with r a show ?thesis
        by (intro exI[of _ k] exI[of _ svc] exI[of _ reg] exI[of _ chks]) auto
    qed
  qed
qed

lemma registerChecks_distinct:
  "registerChecks env c k reg chks (rs, rc, errs, run) = Some (rs', rc', errs', run') \<Longrightarrow>
   distinct (map fst rc) \<Longrightarrow> distinct (map fst rc')"
proof (induction chks arbitrary: rc errs run)
  case Nil
  then show ?case by simp
next
  case (Cons chk chks)
  from Cons.prems show ?case
    by (auto split: sum.splits prod.splits option.splits if_splits
        dest!: Cons.IH simp: distinct_appendCheck)
qed

lemma buildRegistrations_distinct:
  "buildRegistrations env c d services (rs, rc, errs, run) = Some (rs', rc', errs', run') \<Longrightarrow>
   distinct (map fst rs) \<Longrightarrow> distinct (map fst rc) \<Longrightarrow>
   distinct (map fst rs') \<and> distinct (map fst rc')"
proof (induction services arbitrary: rs rc errs run)
  case Nil
  then show ?case by simp
next
  case (Cons a services)
  obtain k0 svc0 where a: "a = (k0, svc0)" by (cases a)
  from Cons.prems(1)[unfolded a] show ?case
  proof (cases rule: buildRegistrations_Cons_cases)
    case (1 reg rc1 errs1 run1)
    from registerChecks_distinct[OF 1(2) Cons.prems(3)] Cons.prems(2)
    show ?thesis by (intro Cons.IH[OF 1(3)]) (simp_all add: distinct_update)
  qed
qed

lemma buildRegistrations_checks_init:
  assumes "buildRegistrations env c d services (rs, [], errs, run) = Some (rs', rc', errs', run')"
    and "distinct (map fst services)"
    and "map_of services k = Some svc" and "createService c svc d k = Some (Inr reg)"
  obtains new where
    "map_of rc' k = (if new = [] then None else Some new)"
    "set new \<subseteq> derivedChecks env reg (s_Checks svc)"
    "derivedPlainChecks env c reg (s_Checks svc) \<subseteq> set new"
    "factoryKeepsID c \<longrightarrow> errs' = errs \<longrightarrow>
        derivedDelegatedIDs env c reg (s_Checks svc) \<subseteq> dom (map_of run')"
proof -
  from buildRegistrations_checks[OF assms] obtain new where n:
    "map_of rc' k = (if new = [] then map_of [] k
                     else Some ((case map_of [] k of None \<Rightarrow> [] | Some l \<Rightarrow> l) @ new))"
    "set new \<subseteq> derivedChecks env reg (s_Checks svc)"
    "derivedPlainChecks env c reg (s_Checks svc) \<subseteq> set new"
    "factoryKeepsID c \<longrightarrow> errs' = errs \<longrightarrow>
        derivedDelegatedIDs env c reg (s_Checks svc) \<subseteq> dom (map_of run')"
    by blast
  have "map_of rc' k = (if new = [] then None else Some new)"
    using n(1) by (cases "new = []") simp_all
  with n(2-4) that show ?thesis by blast
qed

lemma SetServices_success_cases:
  assumes "SetServices env c d services = Some (None, c')"
  obtains rs rc run where
    "buildRegistrations env c d services ([], [], [], checkRunners c) = Some (rs, rc, [], run)"
    "servicesGroups c' = fold (\<lambda>(k, v). storeInGroup d k v) rs (servicesGroups c)"
    "checkGroups c' = fold (\<lambda>(k, v). storeInGroup d k v) rc (checkGroups c)"
    "checkRunners c' = run"
  using assms
  by (auto simp: SetServices_def Let_def ErrorOrNil_def SyncNow_def
      split: option.splits prod.splits if_splits)

text \<open>
  Claim C1, as stated, fails: the store loops write the keys of the new registrations
  into the domain's maps and delete nothing. \<open>SetServices(d, {})\<close> on the executor's
  syncer returns nil and leaves the syncer as it was, the redis service still in
  \<open>servicesGroups[d]\<close>; a sync that follows, in front of an agent that holds the service
  and its check, sends no command and removes nothing.
\<close>

theorem SetServices_empty_map_keeps_services:
  "SetServices exampleEnv executorSyncer ''executor-a1-web'' [] = Some (None, executorSyncer) \<and>
   groupLookup (servicesGroups executorSyncer) ''executor-a1-web'' ''redis'' = Some redisRegistration \<and>
   syncer agreeingWorld = executorSyncer \<and>
   SyncServices memAPI [] agreeingWorld = (None, agreeingWorld) \<and>
   map_of (mem_services (agent agreeingWorld)) (asr_ID redisRegistration) \<noteq> None"
  by (simp add: sync_eval world_eval syncer_eval example_eval example_eval2 groupLookup_def)

text \<open>
  Claim C1, amended: for every domain \<open>d\<close> and every services map \<open>m\<close>, a successful
  \<open>SetServices(d, m)\<close> merges the registrations derived from \<open>m\<close> into
  \<open>servicesGroups[d]\<close> and \<open>checkGroups[d]\<close>. For every key of \<open>m\<close>,
  \<open>servicesGroups[d][key]\<close> becomes the registration derived from the service, and
  \<open>checkGroups[d][key]\<close> becomes the list of check registrations the call kept for it
  (each derived from a check of the service, and every check of a type that is not
  delegated among them) unless that list is empty, in which case the previous entry
  stays. Every previously stored key of domain \<open>d\<close> that is absent from \<open>m\<close> keeps its
  services and checks, and every other domain is untouched; in particular
  \<open>SetServices(d, {})\<close> changes neither registry.
\<close>

theorem SetServices_merges_into_domain:
  assumes "SetServices env c domain services = Some (None, c')"
    and "distinct (map fst services)"
  shows
    "(\<forall>serviceKey service reg.
        map_of services serviceKey = Some service \<and>
        createService c service domain serviceKey = Some (Inr reg) \<longrightarrow>
        groupLookup (servicesGroups c') domain serviceKey = Some reg \<and>
        (\<exists>kept.
           groupLookup (checkGroups c') domain serviceKey =
             (if kept = [] then groupLookup (checkGroups c) domain serviceKey else Some kept) \<and>
           set kept \<subseteq> derivedChecks env reg (s_Checks service) \<and>
           derivedPlainChecks env c reg (s_Checks service) \<subseteq> set kept)) \<and>
     (\<forall>serviceKey.
        map_of services serviceKey = None \<longrightarrow>
        groupLookup (servicesGroups c') domain serviceKey
          = groupLookup (servicesGroups c) domain serviceKey \<and>
        groupLookup (checkGroups c') domain serviceKey
          = groupLookup (checkGroups c) domain serviceKey) \<and>
     (\<forall>domain'.
        domain' \<noteq> domain \<longrightarrow>
        map_of (servicesGroups c') domain' = map_of (servicesGroups c) domain' \<and>
        map_of (checkGroups c') domain' = map_of (checkGroups c) domain') \<and>
     (services = [] \<longrightarrow> servicesGroups c' = servicesGroups c \<and> checkGroups c' = checkGroups c)"
proof -
  from assms(1) obtain rs rc run where
    br: "buildRegistrations env c domain services ([], [], [], checkRunners c) = Some (rs, rc, [], run)"
    and sg: "servicesGroups c' = fold (\<lambda>(k, v). storeInGroup domain k v) rs (servicesGroups c)"
    and cg: "checkGroups c' = fold (\<lambda>(k, v). storeInGroup domain k v) rc (checkGroups c)"
    by (rule SetServices_success_cases)
  from buildRegistrations_distinct[OF br] have drs: "distinct (map fst rs)" and drc: "distinct (map fst rc)"
    by simp_all
  from buildRegistrations_regS[OF br assms(2)] have regS:
    "\<And>k. map_of rs k = (case map_of services k of None \<Rightarrow> None
       | Some svc \<Rightarrow> (case createService c svc domain k of Some (Inr reg) \<Rightarrow> Some reg | _ \<Rightarrow> None))"
    by (simp split: option.splits)
  from buildRegistrations_frame[OF br] have regC_none:
    "\<And>k. map_of services k = None \<Longrightarrow> map_of rc k = None" by simp
  have p1: "\<forall>serviceKey service reg.
        map_of services serviceKey = Some service \<and>
        createService c service domain serviceKey = Some (Inr reg) \<longrightarrow>
        groupLookup (servicesGroups c') domain serviceKey = Some reg \<and>
        (\<exists>kept.
           groupLookup (checkGroups c') domain serviceKey =
             (if kept = [] then groupLookup (checkGroups c) domain serviceKey else Some kept) \<and>
           set kept \<subseteq> derivedChecks env reg (s_Checks service) \<and>
           derivedPlainChecks env c reg (s_Checks service) \<subseteq> set kept)"
  proof (intro allI impI, elim conjE)
    fix k svc reg
    assume m: "map_of services k = Some svc" and cs: "createService c svc domain k = Some (Inr reg)"
    have a: "groupLookup (servicesGroups c') domain k = Some reg"
      using regS[of k] m cs by (simp add: sg fold_store_lookup[OF drs])
    from br assms(2) m cs obtain new where n:
      "map_of rc k = (if new = [] then None else Some new)"
      "set new \<subseteq> derivedChecks env reg (s_Checks svc)"
      "derivedPlainChecks env c reg (s_Checks svc) \<subseteq> set new"
      by (rule buildRegistrations_checks_init)
    have "groupLookup (checkGroups c') domain k =
             (if new = [] then groupLookup (checkGroups c) domain k else Some new)"
      using n(1) by (simp add: cg fold_store_lookup[OF drc])
    with a n(2,3) show "groupLookup (servicesGroups c') domain k = Some reg \<and>
        (\<exists>kept.
           groupLookup (checkGroups c') domain k =
             (if kept = [] then groupLookup (checkGroups c) domain k else Some kept) \<and>
           set kept \<subseteq> derivedChecks env reg (s_Checks svc) \<and>
           derivedPlainChecks env c reg (s_Checks svc) \<subseteq> set kept)"
      by blast
  qed
  have p2: "\<forall>serviceKey.
        map_of services serviceKey = None \<longrightarrow>
        groupLookup (servicesGroups c') domain serviceKey
          = groupLookup (servicesGroups c) domain serviceKey \<and>
        groupLookup (checkGroups c') domain serviceKey
          = groupLookup (checkGroups c) domain serviceKey"
    using regS regC_none
    by (simp add: sg cg fold_store_lookup[OF drs] fold_store_lookup[OF drc])
  have p3: "\<forall>domain'.
        domain' \<noteq> domain \<longrightarrow>
        map_of (servicesGroups c') domain' = map_of (servicesGroups c) domain' \<and>
        map_of (checkGroups c') domain' = map_of (checkGroups c) domain'"
    by (simp add: sg cg fold_store_other)
  have p4: "services = [] \<longrightarrow> servicesGroups c' = servicesGroups c \<and> checkGroups c' = checkGroups c"
    using br sg cg by auto
  from p1 p2 p3 p4 show ?thesis by blast
qed

theorem SetServices_merges_into_domain_witness:
  "\<exists>c'. SetServices exampleEnv executorSyncer ''executor-a1-web''
           [(GenerateServiceKey nomadService, nomadService)] = Some (None, c') \<and>
        groupLookup (servicesGroups c') ''executor-a1-web'' ''nomad-rpc-serf''
          = Some \<lparr>asr_ID = ''_nomad-executor-a1-web-nomad-rpc-serf'', asr_Name = ''nomad'',
                  asr_Tags = [''rpc'', ''serf''], asr_Port = 4647, asr_Address = ''1.2.3.4'',
                  asr_EnableTagOverride = False\<rparr> \<and>
        groupLookup (servicesGroups c') ''executor-a1-web'' ''redis'' = Some redisRegistration \<and>
        groupLookup (checkGroups c') ''executor-a1-web'' ''redis'' = Some [redisCheckRegistration]"
proof -
  let ?m = "[(GenerateServiceKey nomadService, nomadService)]"
  obtain c' where h: "SetServices exampleEnv executorSyncer ''executor-a1-web'' ?m = Some (None, c')"
    by (simp add: syncer_eval example_eval)
  have d: "distinct (map fst ?m)" by simp
  have m1: "map_of ?m ''nomad-rpc-serf'' = Some nomadService"
    by (simp add: GenerateServiceKey_def nomadService_def)
  have m2: "map_of ?m ''redis'' = None"
    by (simp add: GenerateServiceKey_def nomadService_def)
  have cs: "createService executorSyncer nomadService ''executor-a1-web'' ''nomad-rpc-serf''
     = Some (Inr \<lparr>asr_ID = ''_nomad-executor-a1-web-nomad-rpc-serf'', asr_Name = ''nomad'',
                  asr_Tags = [''rpc'', ''serf''], asr_Port = 4647, asr_Address = ''1.2.3.4'',
                  asr_EnableTagOverride = False\<rparr>)"
    by (simp add: syncer_eval example_eval)
  have old: "groupLookup (servicesGroups executorSyncer) ''executor-a1-web'' ''redis'' = Some redisRegistration"
    "groupLookup (checkGroups executorSyncer) ''executor-a1-web'' ''redis'' = Some [redisCheckRegistration]"
    by (simp_all add: groupLookup_def executorSyncer_def)
  from SetServices_merges_into_domain[OF h d] m1 m2 cs old show ?thesis
    by (intro exI[of _ c']) (simp add: h)
qed

subsection \<open>SetServices: construction errors\<close>

lemma registerChecks_runners_mono:
  "registerChecks env c k reg chks (rs, rc, errs, run) = Some (rs', rc', errs', run') \<Longrightarrow>
   map_of run' ident = None \<Longrightarrow> map_of run ident = None"
  using registerChecks_effect[of env c k reg chks rs rc errs run rs' rc' errs' run']
  by (meson domIff subsetD not_Some_eq)

lemma registerChecks_factory_errors:
  "registerChecks env c k reg chks (rs, rc, errs, run) = Some (rs', rc', errs', run') \<Longrightarrow>
   checkFactoryErrors env c reg chks run' \<subseteq> set errs'"
proof (induction chks arbitrary: rc errs run)
  case Nil
  then show ?case by (simp add: checkFactoryErrors_def)
next
  case (Cons a chks)
  have split: "checkFactoryErrors env c reg (a # chks) run'
      = checkFactoryErrors env c reg [a] run' \<union> checkFactoryErrors env c reg chks run'"
    by (auto simp: checkFactoryErrors_def)
  have rest: "\<And>rc1 errs1 run1.
      registerChecks env c k reg chks (rs, rc1, errs1, run1) = Some (rs', rc', errs', run') \<Longrightarrow>
      checkFactoryErrors env c reg chks run' \<subseteq> set errs'"
    by (rule Cons.IH)
  show ?case
  proof (cases "createCheckReg env a reg")
    case (Inl e)
    then have "checkFactoryErrors env c reg [a] run' = {}" by (auto simp: checkFactoryErrors_def)
    moreover from Cons.prems Inl have
      "registerChecks env c k reg chks (rs, rc, errs @ [e], run) = Some (rs', rc', errs', run')" by simp
    ultimately show ?thesis using rest split by blast
  next
    case (Inr p)
    obtain chkReg chk' where p: "p = (chkReg, chk')" by (cases p)
    have ty: "sc_Type chk' = sc_Type a" using createCheckReg_Type Inr p by blast
    show ?thesis
    proof (cases "sc_Type a \<in> delegateChecks c")
      case False
      then have "checkFactoryErrors env c reg [a] run' = {}" by (auto simp: checkFactoryErrors_def)
      moreover from Cons.prems Inr p ty False have
        "registerChecks env c k reg chks (rs, appendCheck k chkReg rc, errs, run) = Some (rs', rc', errs', run')"
        by simp
      ultimately show ?thesis using rest split by blast
    next
      case True
      show ?thesis
      proof (cases "map_of run (acr_ID chkReg)")
        case (Some cr)
        from Cons.prems Inr p ty True Some have r:
          "registerChecks env c k reg chks (rs, rc, errs, run) = Some (rs', rc', errs', run')" by simp
        have "map_of run' (acr_ID chkReg) \<noteq> None"
          using registerChecks_runners_mono[OF r, of "acr_ID chkReg"] Some by auto
        then have "checkFactoryErrors env c reg [a] run' = {}"
          using Inr p by (auto simp: checkFactoryErrors_def)
        with rest[OF r] split show ?thesis by blast
      next
        case None
        with Cons.prems Inr p ty True obtain factory where f: "createDelegatedCheck c = Some factory"
          by (auto split: option.splits)
        show ?thesis
        proof (cases "factory chk' (acr_ID chkReg)")
          case (Inl e)
          with Cons.prems \<open>createCheckReg env a reg = Inr p\<close> p ty True None f have r:
            "registerChecks env c k reg chks (rs, rc, errs @ [e], run) = Some (rs', rc', errs', run')"
            by simp
          from registerChecks_frame[OF r] have "e \<in> set errs'" by auto
          moreover have "checkFactoryErrors env c reg [a] run' \<subseteq> {e}"
            using \<open>createCheckReg env a reg = Inr p\<close> p f Inl by (auto simp: checkFactoryErrors_def)
          ultimately show ?thesis using rest[OF r] split by blast
        next
          case (Inr nc)
          with Cons.prems \<open>createCheckReg env a reg = Inr p\<close> p ty True None f have r:
            "registerChecks env c k reg chks
               (rs, appendCheck k chkReg rc, errs, AList.update (ck_ID nc) (NewCheckRunner nc) run)
               = Some (rs', rc', errs', run')"
            by simp
          have "checkFactoryErrors env c reg [a] run' = {}"
            using \<open>createCheckReg env a reg = Inr p\<close> p f Inr by (auto simp: checkFactoryErrors_def)
          with rest[OF r] split show ?thesis by blast
        qed
      qed
    qed
  qed
qed

lemma registerChecks_errors_sound:
  "registerChecks env c k reg chks (rs, rc, errs, run) = Some (rs', rc', errs', run') \<Longrightarrow>
   set errs' \<subseteq> set errs \<union> checkTypeErrors chks \<union> checkFactoryErrors env c reg chks run"
proof (induction chks arbitrary: rc errs run)
  case Nil
  then show ?case by auto
next
  case (Cons a chks)
  have mono1: "checkTypeErrors chks \<subseteq> checkTypeErrors (a # chks)"
    by (auto simp: checkTypeErrors_def)
  have mono2: "\<And>run. checkFactoryErrors env c reg chks run \<subseteq> checkFactoryErrors env c reg (a # chks) run"
    by (auto simp: checkFactoryErrors_def)
  show ?case
  proof (cases "createCheckReg env a reg")
    case (Inl e)
    then have e: "e \<in> checkTypeErrors (a # chks)"
      by (auto simp: checkTypeErrors_def createCheckReg_Inl)
    from Cons.prems Inl have r:
      "registerChecks env c k reg chks (rs, rc, errs @ [e], run) = Some (rs', rc', errs', run')" by simp
    from Cons.IH[OF r] e mono1 mono2[of run] show ?thesis by auto
  next
    case (Inr p)
    obtain chkReg chk' where p: "p = (chkReg, chk')" by (cases p)
    have ty: "sc_Type chk' = sc_Type a" using createCheckReg_Type Inr p by blast
    show ?thesis
    proof (cases "sc_Type a \<in> delegateChecks c")
      case False
      from Cons.prems Inr p ty False have r:
        "registerChecks env c k reg chks (rs, appendCheck k chkReg rc, errs, run) = Some (rs', rc', errs', run')"
        by simp
      from Cons.IH[OF r] mono1 mono2[of run] show ?thesis by blast
    next
      case True
      show ?thesis
      proof (cases "map_of run (acr_ID chkReg)")
        case (Some cr)
        from Cons.prems Inr p ty True Some have r:
          "registerChecks env c k reg chks (rs, rc, errs, run) = Some (rs', rc', errs', run')" by simp
        from Cons.IH[OF r] mono1 mono2[of run] show ?thesis by blast
      next
        case None
        with Cons.prems Inr p ty True obtain factory where f: "createDelegatedCheck c = Some factory"
          by (auto split: option.splits)
        show ?thesis
        proof (cases "factory chk' (acr_ID chkReg)")
          case (Inl e)
          with Cons.prems \<open>createCheckReg env a reg = Inr p\<close> p ty True None f have r:
            "registerChecks env c k reg chks (rs, rc, errs @ [e], run) = Some (rs', rc', errs', run')"
            by simp
          have e: "e \<in> checkFactoryErrors env c reg (a # chks) run"
            unfolding checkFactoryErrors_def
            using \<open>createCheckReg env a reg = Inr p\<close> p True None f Inl by force
          from Cons.IH[OF r] e mono1 mono2[of run] show ?thesis by auto
        next
          case (Inr nc)
          let ?run1 = "AList.update (ck_ID nc) (NewCheckRunner nc) run"
          from Inr Cons.prems \<open>createCheckReg env a reg = Inr p\<close> p ty True None f have r:
            "registerChecks env c k reg chks (rs, appendCheck k chkReg rc, errs, ?run1)
               = Some (rs', rc', errs', run')"
            by simp
          have "checkFactoryErrors env c reg chks ?run1 \<subseteq> checkFactoryErrors env c reg chks run"
            by (auto simp: checkFactoryErrors_def update_conv' split: if_splits)
          with Cons.IH[OF r] mono1 mono2[of run] show ?thesis by blast
        qed
      qed
    qed
  qed
qed

lemma typeErrors_Cons:
  "typeErrors ((k, svc) # services) = checkTypeErrors (s_Checks svc) \<union> typeErrors services"
  by (simp add: typeErrors_def)

lemma factoryErrors_Cons:
  assumes "createService c svc d k = Some (Inr reg)"
  shows "factoryErrors env c d ((k, svc) # services) run
           = checkFactoryErrors env c reg (s_Checks svc) run \<union> factoryErrors env c d services run"
  using assms by (simp add: factoryErrors_def)

lemma runners_None_mono:
  "dom (map_of run) \<subseteq> dom (map_of run') \<Longrightarrow> map_of run' ident = None \<Longrightarrow> map_of run ident = None"
  by (meson domIff subsetD not_Some_eq)

lemma checkFactoryErrors_mono:
  assumes "dom (map_of run) \<subseteq> dom (map_of run')"
  shows "checkFactoryErrors env c reg chks run' \<subseteq> checkFactoryErrors env c reg chks run"
proof
  fix e assume "e \<in> checkFactoryErrors env c reg chks run'"
  then obtain chk chkReg chk' factory where h:
    "chk \<in> set chks" "createCheckReg env chk reg = Inr (chkReg, chk')"
    "sc_Type chk \<in> delegateChecks c" "map_of run' (acr_ID chkReg) = None"
    "createDelegatedCheck c = Some factory" "factory chk' (acr_ID chkReg) = Inl e"
    unfolding checkFactoryErrors_def by blast
  from runners_None_mono[OF assms h(4)] h
  show "e \<in> checkFactoryErrors env c reg chks run" unfolding checkFactoryErrors_def by blast
qed

lemma factoryErrors_mono:
  assumes "dom (map_of run) \<subseteq> dom (map_of run')"
  shows "factoryErrors env c d services run' \<subseteq> factoryErrors env c d services run"
proof
  fix e assume "e \<in> factoryErrors env c d services run'"
  then obtain k svc where ks: "(k, svc) \<in> set services"
    and e: "e \<in> (case createService c svc d k of
                    Some (Inr reg) \<Rightarrow> checkFactoryErrors env c reg (s_Checks svc) run'
                  | _ \<Rightarrow> {})"
    unfolding factoryErrors_def by auto
  from e obtain reg where r: "createService c svc d k = Some (Inr reg)"
    and e': "e \<in> checkFactoryErrors env c reg (s_Checks svc) run'"
    by (auto split: option.splits sum.splits)
  from checkFactoryErrors_mono[OF assms] e' have "e \<in> checkFactoryErrors env c reg (s_Checks svc) run"
    by blast
  with ks r show "e \<in> factoryErrors env c d services run"
    unfolding factoryErrors_def by force
qed

lemma registerChecks_runners_subset:
  "registerChecks env c k reg chks (rs, rc, errs, run) = Some (rs', rc', errs', run') \<Longrightarrow>
   dom (map_of run) \<subseteq> dom (map_of run')"
  using registerChecks_effect[of env c k reg chks rs rc errs run rs' rc' errs' run'] by blast

lemma buildRegistrations_runners_subset:
  "buildRegistrations env c d services (rs, rc, errs, run) = Some (rs', rc', errs', run') \<Longrightarrow>
   dom (map_of run) \<subseteq> dom (map_of run')"
  using buildRegistrations_frame[of env c d services rs rc errs run rs' rc' errs' run'] by blast

lemma registerChecks_type_errors:
  "registerChecks env c k reg chks (rs, rc, errs, run) = Some (rs', rc', errs', run') \<Longrightarrow>
   checkTypeErrors chks \<subseteq> set errs'"
  using registerChecks_invalid[of env c k reg chks rs rc errs run rs' rc' errs' run']
  unfolding checkTypeErrors_def by blast

lemma buildRegistrations_errors_complete:
  "buildRegistrations env c d services (rs, rc, errs, run) = Some (rs', rc', errs', run') \<Longrightarrow>
   set errs \<union> typeErrors services \<union> factoryErrors env c d services run' \<subseteq> set errs'"
proof (induction services arbitrary: rs rc errs run)
  case Nil
  then show ?case by (simp add: typeErrors_def factoryErrors_def)
next
  case (Cons a services)
  obtain k0 svc0 where a: "a = (k0, svc0)" by (cases a)
  from Cons.prems[unfolded a] show ?case
  proof (cases rule: buildRegistrations_Cons_cases)
    case (1 reg rc1 errs1 run1)
    have e0: "set errs \<subseteq> set errs1" using registerChecks_frame[OF 1(2)] by auto
    have t0: "checkTypeErrors (s_Checks svc0) \<subseteq> set errs1" by (rule registerChecks_type_errors[OF 1(2)])
    have f0: "checkFactoryErrors env c reg (s_Checks svc0) run1 \<subseteq> set errs1"
      by (rule registerChecks_factory_errors[OF 1(2)])
    have f1: "checkFactoryErrors env c reg (s_Checks svc0) run' \<subseteq> checkFactoryErrors env c reg (s_Checks svc0) run1"
      by (rule checkFactoryErrors_mono[OF buildRegistrations_runners_subset[OF 1(3)]])
    from Cons.IH[OF 1(3)] have ih:
      "set errs1 \<union> typeErrors services \<union> factoryErrors env c d services run' \<subseteq> set errs'" .
    show ?thesis
      unfolding a typeErrors_Cons factoryErrors_Cons[OF 1(1)]
      using e0 t0 f0 f1 ih by blast
  qed
qed

lemma buildRegistrations_errors_sound:
  "buildRegistrations env c d services (rs, rc, errs, run) = Some (rs', rc', errs', run') \<Longrightarrow>
   set errs' \<subseteq> set errs \<union> typeErrors services \<union> factoryErrors env c d services run"
proof (induction services arbitrary: rs rc errs run)
  case Nil
  then show ?case by auto
next
  case (Cons a services)
  obtain k0 svc0 where a: "a = (k0, svc0)" by (cases a)
  from Cons.prems[unfolded a] show ?case
  proof (cases rule: buildRegistrations_Cons_cases)
    case (1 reg rc1 errs1 run1)
    have s0: "set errs1 \<subseteq> set errs \<union> checkTypeErrors (s_Checks svc0)
                 \<union> checkFactoryErrors env c reg (s_Checks svc0) run"
      by (rule registerChecks_errors_sound[OF 1(2)])
    have m: "factoryErrors env c d services run1 \<subseteq> factoryErrors env c d services run"
      by (rule factoryErrors_mono[OF registerChecks_runners_subset[OF 1(2)]])
    from Cons.IH[OF 1(3)] have ih:
      "set errs' \<subseteq> set errs1 \<union> typeErrors services \<union> factoryErrors env c d services run1" .
    show ?thesis
      unfolding a typeErrors_Cons factoryErrors_Cons[OF 1(1)]
      using s0 m ih by blast
  qed
qed

lemma SetServices_result:
  assumes "SetServices env c d services = Some (res, c')"
  shows "\<exists>rs rc errs run.
           buildRegistrations env c d services ([], [], [], checkRunners c) = Some (rs, rc, errs, run) \<and>
           checkRunners c' = run \<and> res = ErrorOrNil errs \<and>
           (errs \<noteq> [] \<longrightarrow> c' = c\<lparr>checkRunners := run\<rparr>)"
proof -
  from assms obtain st where
    b: "buildRegistrations env c d services ([], [], [], checkRunners c) = Some st"
    by (auto simp: SetServices_def split: option.splits)
  obtain rs rc errs run where st: "st = (rs, rc, errs, run)" by (cases st)
  have 1: "checkRunners c' = run"
    using assms b st by (auto simp: SetServices_def Let_def SyncNow_def split: if_splits)
  have 2: "res = ErrorOrNil errs"
    using assms b st by (auto simp: SetServices_def Let_def ErrorOrNil_def split: if_splits)
  have 3: "errs \<noteq> [] \<longrightarrow> c' = c\<lparr>checkRunners := run\<rparr>"
    using assms b st by (auto simp: SetServices_def Let_def split: if_splits)
  from b[unfolded st] 1 2 3 show ?thesis by blast
qed

lemma refusingSetServices_eval:
  "SetServices exampleEnv refusingSyncer ''executor-a1-web''
     [(''redis'', redisService), (''job'', brokenService)]
   = Some (Some (MultiError [External ''no executor'', CheckTypeNotValid ''grpc'']), refusingSyncer)"
  by (simp add: syncer_eval example_eval example_eval2 refusingSyncer_def refusingFactory_def)

text \<open>
  Claim C5, as stated, fails: with a construction error \<open>SetServices\<close> returns before the
  store loops. Given the redis service, which constructs without error, and a service
  with a check of the unknown type \<open>grpc\<close>, it returns the multi-error and leaves the
  syncer as it was: the redis service is not applied to the desired state.
\<close>

theorem SetServices_error_applies_nothing:
  "SetServices exampleEnv freshSyncer ''executor-a1-web''
     [(''redis'', redisService), (''job'', brokenService)]
     = Some (Some (MultiError [CheckTypeNotValid ''grpc'']), freshSyncer) \<and>
   createService freshSyncer redisService ''executor-a1-web'' ''redis'' = Some (Inr redisRegistration) \<and>
   servicesGroups freshSyncer = [] \<and> checkGroups freshSyncer = []"
  by (simp add: syncer_eval example_eval example_eval2)

text \<open>
  Claim C5, amended: whenever \<open>SetServices(d, m)\<close> returns, which it does unless it calls
  a nil function field: if some check of \<open>m\<close> has an unknown type, or the delegated-check
  factory fails for a check of \<open>m\<close> of a delegated type whose ID has no runner when the
  call returns, then the call returns an error. An error that it returns is a single
  multi-error, which holds every one of these errors, and holds nothing but type errors
  of checks of \<open>m\<close> and factory errors of checks of \<open>m\<close> whose ID had no runner before
  the call; and with it the call applies no desired state: \<open>servicesGroups\<close> and
  \<open>checkGroups\<close> are unchanged, also for the items of \<open>m\<close> that constructed successfully,
  and no immediate sync is signalled.
\<close>

theorem SetServices_construction_errors:
  assumes "SetServices env c domain services = Some (res, c')"
  shows
    "(typeErrors services \<union> factoryErrors env c domain services (checkRunners c') \<noteq> {}
        \<longrightarrow> res \<noteq> None) \<and>
     (res \<noteq> None \<longrightarrow>
        (\<exists>errs. res = Some (MultiError errs) \<and> errs \<noteq> [] \<and>
           typeErrors services \<union> factoryErrors env c domain services (checkRunners c')
             \<subseteq> set errs \<and>
           set errs \<subseteq> typeErrors services \<union> factoryErrors env c domain services (checkRunners c)) \<and>
        servicesGroups c' = servicesGroups c \<and> checkGroups c' = checkGroups c \<and>
        notifySyncCh c' = notifySyncCh c)"
proof -
  from SetServices_result[OF assms] obtain rs rc errs run where
    br: "buildRegistrations env c domain services ([], [], [], checkRunners c) = Some (rs, rc, errs, run)"
    and cr: "checkRunners c' = run"
    and res: "res = ErrorOrNil errs"
    and c': "errs \<noteq> [] \<longrightarrow> c' = c\<lparr>checkRunners := run\<rparr>"
    by blast
  from buildRegistrations_errors_complete[OF br] cr have
    compl: "typeErrors services \<union> factoryErrors env c domain services (checkRunners c') \<subseteq> set errs"
    by simp
  from buildRegistrations_errors_sound[OF br] have
    sound: "set errs \<subseteq> typeErrors services \<union> factoryErrors env c domain services (checkRunners c)"
    by simp
  have p1: "typeErrors services \<union> factoryErrors env c domain services (checkRunners c') \<noteq> {}
        \<longrightarrow> res \<noteq> None"
  proof
    assume "typeErrors services \<union> factoryErrors env c domain services (checkRunners c') \<noteq> {}"
    with compl have "errs \<noteq> []" by auto
    then show "res \<noteq> None" by (simp add: res ErrorOrNil_def)
  qed
  have p2: "res \<noteq> None \<longrightarrow>
        (\<exists>errs. res = Some (MultiError errs) \<and> errs \<noteq> [] \<and>
           typeErrors services \<union> factoryErrors env c domain services (checkRunners c')
             \<subseteq> set errs \<and>
           set errs \<subseteq> typeErrors services \<union> factoryErrors env c domain services (checkRunners c)) \<and>
        servicesGroups c' = servicesGroups c \<and> checkGroups c' = checkGroups c \<and>
        notifySyncCh c' = notifySyncCh c"
  proof
    assume "res \<noteq> None"
    then have ne: "errs \<noteq> []" by (auto simp: res ErrorOrNil_def)
    then have r: "res = Some (MultiError errs)" by (simp add: res ErrorOrNil_def)
    from c' ne have "servicesGroups c' = servicesGroups c" "checkGroups c' = checkGroups c"
      "notifySyncCh c' = notifySyncCh c" by simp_all
    with r ne compl sound show "(\<exists>errs. res = Some (MultiError errs) \<and> errs \<noteq> [] \<and>
           typeErrors services \<union> factoryErrors env c domain services (checkRunners c')
             \<subseteq> set errs \<and>
           set errs \<subseteq> typeErrors services \<union> factoryErrors env c domain services (checkRunners c)) \<and>
        servicesGroups c' = servicesGroups c \<and> checkGroups c' = checkGroups c \<and>
        notifySyncCh c' = notifySyncCh c" by blast
  qed
  from p1 p2 show ?thesis by blast
qed

theorem SetServices_construction_errors_witness:
  "SetServices exampleEnv refusingSyncer ''executor-a1-web''
     [(''redis'', redisService), (''job'', brokenService)]
     = Some (Some (MultiError [External ''no executor'', CheckTypeNotValid ''grpc'']), refusingSyncer) \<and>
   CheckTypeNotValid ''grpc'' \<in> typeErrors [(''redis'', redisService), (''job'', brokenService)] \<and>
   External ''no executor'' \<in> factoryErrors exampleEnv refusingSyncer ''executor-a1-web''
       [(''redis'', redisService), (''job'', brokenService)] (checkRunners refusingSyncer) \<and>
   (\<exists>errs. Some (MultiError [External ''no executor'', CheckTypeNotValid ''grpc''])
             = Some (MultiError errs) \<and>
           CheckTypeNotValid ''grpc'' \<in> set errs \<and> External ''no executor'' \<in> set errs) \<and>
   servicesGroups refusingSyncer = [] \<and> checkGroups refusingSyncer = []"
proof -
  let ?m = "[(''redis'', redisService), (''job'', brokenService)]"
  note h = refusingSetServices_eval
  have "CheckTypeNotValid (sc_Type grpcCheck) \<in> checkTypeErrors (s_Checks brokenService)"
    unfolding checkTypeErrors_def
    by (rule CollectI, rule exI[of _ grpcCheck])
       (simp add: brokenService_def grpcCheck_def ServiceCheckHTTP_def ServiceCheckTCP_def
          ServiceCheckScript_def)
  then have t: "CheckTypeNotValid ''grpc'' \<in> typeErrors ?m"
    by (simp add: typeErrors_def grpcCheck_def)
  have cs: "createService refusingSyncer brokenService ''executor-a1-web'' ''job'' = Some (Inr jobRegistration)"
    by (simp add: syncer_eval example_eval example_eval2 refusingSyncer_def)
  have cc: "createCheckReg exampleEnv scriptCheck jobRegistration
      = Inr (\<lparr>acr_ID = ''chk/run/_nomad-executor-a1-web-job'', acr_Name = ''run'', acr_Notes = [],
               acr_ServiceID = ''_nomad-executor-a1-web-job'', acr_Timeout = ''2s'',
               acr_Interval = ''10s'', acr_HTTP = [], acr_TCP = [], acr_TTL = ''41s''\<rparr>, scriptCheck)"
    by (simp add: syncer_eval example_eval example_eval2 ttlCheckBuffer_def)
  have dl: "sc_Type scriptCheck \<in> delegateChecks refusingSyncer"
    "createDelegatedCheck refusingSyncer = Some refusingFactory"
    "map_of (checkRunners refusingSyncer) ''chk/run/_nomad-executor-a1-web-job'' = None"
    by (simp_all add: refusingSyncer_def SetDelegatedChecks_def freshSyncer_def SetAddrFinder_def
        NewSyncer_def scriptCheck_def)
  have "External ''no executor''
      \<in> checkFactoryErrors exampleEnv refusingSyncer jobRegistration (s_Checks brokenService)
          (checkRunners refusingSyncer)"
    unfolding checkFactoryErrors_def
    apply (rule CollectI)
    apply (rule exI[of _ scriptCheck])
    apply (rule exI[of _ "\<lparr>acr_ID = ''chk/run/_nomad-executor-a1-web-job'', acr_Name = ''run'',
             acr_Notes = [], acr_ServiceID = ''_nomad-executor-a1-web-job'', acr_Timeout = ''2s'',
             acr_Interval = ''10s'', acr_HTTP = [], acr_TCP = [], acr_TTL = ''41s''\<rparr>"])
    apply (rule exI[of _ scriptCheck])
    apply (rule exI[of _ refusingFactory])
    apply (simp add: cc dl brokenService_def refusingFactory_def)
    done
  then have f: "External ''no executor'' \<in> factoryErrors exampleEnv refusingSyncer ''executor-a1-web'' ?m
             (checkRunners refusingSyncer)"
    by (simp add: factoryErrors_def cs)
  have g: "servicesGroups refusingSyncer = []" "checkGroups refusingSyncer = []"
    by (simp_all add: refusingSyncer_def SetDelegatedChecks_def freshSyncer_def SetAddrFinder_def
        NewSyncer_def)
  have k: "Some (MultiError [External ''no executor'', CheckTypeNotValid ''grpc'']) \<noteq> None"
    by simp
  from SetServices_construction_errors[OF h] k obtain errs where
    e1: "Some (MultiError [External ''no executor'', CheckTypeNotValid ''grpc'']) = Some (MultiError errs)"
    and e2: "typeErrors ?m \<union> factoryErrors exampleEnv refusingSyncer ''executor-a1-web'' ?m
        (checkRunners refusingSyncer) \<subseteq> set errs"
    by blast
  from e2 t f have "CheckTypeNotValid ''grpc'' \<in> set errs" "External ''no executor'' \<in> set errs"
    by blast+
  with e1 have x: "\<exists>errs. Some (MultiError [External ''no executor'', CheckTypeNotValid ''grpc''])
             = Some (MultiError errs) \<and>
           CheckTypeNotValid ''grpc'' \<in> set errs \<and> External ''no executor'' \<in> set errs"
    by blast
  show ?thesis
    using h t f x g by (intro conjI) assumption+
qed

subsection \<open>Delegated-check runners\<close>

lemma deregisterCheck_fst:
  "fst (deregisterCheck api ident w) = fst (agent_CheckDeregister api ident (agent w))"
  by (auto simp: deregisterCheck_def Let_def split: prod.splits option.splits)

lemma deregisterCheck_runners:
  "map_of (checkRunners (syncer (snd (deregisterCheck api ident w)))) =
     (if fst (deregisterCheck api ident w) = None
      then (map_of (checkRunners (syncer w)))(ident := None)
      else map_of (checkRunners (syncer w)))"
  by (auto simp: deregisterCheck_def Let_def delete_conv' fun_eq_iff
      split: prod.splits option.splits)

lemma factoryKeepsID_delegatingSyncer: "factoryKeepsID delegatingSyncer"
  by (auto simp: factoryKeepsID_def delegatingSyncer_def SetDelegatedChecks_def exampleFactory_def)

lemma delegatedIDs_member:
  assumes "distinct (map fst services)"
  shows "ident \<in> delegatedIDs env c domain services \<longleftrightarrow>
         (\<exists>serviceKey service reg.
            map_of services serviceKey = Some service \<and>
            createService c service domain serviceKey = Some (Inr reg) \<and>
            ident \<in> derivedDelegatedIDs env c reg (s_Checks service))"
proof
  assume "ident \<in> delegatedIDs env c domain services"
  then obtain k svc where ks: "(k, svc) \<in> set services"
    and e: "ident \<in> (case createService c svc domain k of
                    Some (Inr reg) \<Rightarrow> derivedDelegatedIDs env c reg (s_Checks svc)
                  | _ \<Rightarrow> {})"
    unfolding delegatedIDs_def by auto
  from e obtain reg where r: "createService c svc domain k = Some (Inr reg)"
    and e': "ident \<in> derivedDelegatedIDs env c reg (s_Checks svc)"
    by (auto split: option.splits sum.splits)
  from ks assms have "map_of services k = Some svc" by simp
  with r e' show "\<exists>serviceKey service reg.
            map_of services serviceKey = Some service \<and>
            createService c service domain serviceKey = Some (Inr reg) \<and>
            ident \<in> derivedDelegatedIDs env c reg (s_Checks service)" by blast
next
  assume "\<exists>serviceKey service reg.
            map_of services serviceKey = Some service \<and>
            createService c service domain serviceKey = Some (Inr reg) \<and>
            ident \<in> derivedDelegatedIDs env c reg (s_Checks service)"
  then obtain k svc reg where m: "map_of services k = Some svc"
    and r: "createService c svc domain k = Some (Inr reg)"
    and e: "ident \<in> derivedDelegatedIDs env c reg (s_Checks svc)" by blast
  from m have "(k, svc) \<in> set services" by (rule map_of_SomeD)
  with r e show "ident \<in> delegatedIDs env c domain services"
    unfolding delegatedIDs_def by force
qed

lemma watchedSetServices_eval:
  "SetServices exampleEnv delegatingSyncer ''executor-a1-web'' [(''job'', watchedService)]
     = Some (None, watchedSyncer)"
  by (simp add: syncer_eval example_eval example_eval2 ttlCheckBuffer_def aliveCheck_def
      watchedService_def jobScriptRegistration_def jobAliveRegistration_def watchedSyncer_def)

text \<open>
  Claim C7, as stated, fails in both directions. After a successful \<open>SetServices\<close> the
  tcp check of the redis service is in \<open>checkGroups\<close> and has no runner: runners are made
  only for delegated check types. And after a \<open>SetServices\<close> that fails on its second
  check, the runner made for the first, a script check, is in the runner table while
  \<open>checkGroups\<close> holds no check at all.
\<close>

theorem runner_table_differs_from_checkGroups:
  "acr_ID redisCheckRegistration \<in> acr_ID ` set (flattenedChecks executorSyncer) \<and>
   map_of (checkRunners executorSyncer) (acr_ID redisCheckRegistration) = None \<and>
   SetServices exampleEnv delegatingSyncer ''executor-a1-web'' [(''job'', brokenService)]
     = Some (Some (MultiError [CheckTypeNotValid ''grpc'']), orphanRunnerSyncer) \<and>
   map_of (checkRunners orphanRunnerSyncer) ''chk/run/_nomad-executor-a1-web-job'' = Some jobRunner \<and>
   flattenedChecks orphanRunnerSyncer = []"
  by (simp add: flattenedChecks_def syncer_eval example_eval example_eval2)

text \<open>
  Claim C7, amended: a successful \<open>SetServices(d, m)\<close>, with a factory that returns checks
  under the ID it is given, removes no runner and leaves every check of \<open>m\<close> of a
  delegated type with a runner under its check ID; every runner the call adds belongs
  to such a check, whose registration the call stores in \<open>checkGroups[d]\<close>. So the runner
  table has a runner for an ID after the call exactly when it had one before the call or
  the ID is that of a check of \<open>m\<close> of a delegated type. The call stores every check of
  \<open>m\<close> of a non-delegated type in \<open>checkGroups[d]\<close>; the ID of such a check has a runner
  after the call only if it had one before or is also the ID of a check of \<open>m\<close> of a
  delegated type. \<open>deregisterCheck\<close> deletes the runner of its ID when the agent's
  \<open>CheckDeregister\<close> succeeds and leaves the runner table unchanged when it fails.
\<close>

theorem SetServices_runner_table:
  assumes "SetServices env c domain services = Some (None, c')"
    and "distinct (map fst services)"
    and "factoryKeepsID c"
  shows
    "dom (map_of (checkRunners c)) \<subseteq> dom (map_of (checkRunners c')) \<and>
     (\<forall>serviceKey service reg.
        map_of services serviceKey = Some service \<and>
        createService c service domain serviceKey = Some (Inr reg) \<longrightarrow>
        derivedDelegatedIDs env c reg (s_Checks service) \<subseteq> dom (map_of (checkRunners c'))) \<and>
     (\<forall>ident.
        ident \<in> dom (map_of (checkRunners c')) \<and> ident \<notin> dom (map_of (checkRunners c)) \<longrightarrow>
        (\<exists>serviceKey service reg chks.
           map_of services serviceKey = Some service \<and>
           createService c service domain serviceKey = Some (Inr reg) \<and>
           ident \<in> derivedDelegatedIDs env c reg (s_Checks service) \<and>
           groupLookup (checkGroups c') domain serviceKey = Some chks \<and>
           ident \<in> acr_ID ` set chks)) \<and>
     dom (map_of (checkRunners c')) =
       dom (map_of (checkRunners c)) \<union> delegatedIDs env c domain services \<and>
     (\<forall>serviceKey service reg chkReg.
        map_of services serviceKey = Some service \<and>
        createService c service domain serviceKey = Some (Inr reg) \<and>
        chkReg \<in> derivedPlainChecks env c reg (s_Checks service) \<longrightarrow>
        (\<exists>chks. groupLookup (checkGroups c') domain serviceKey = Some chks \<and> chkReg \<in> set chks)) \<and>
     map_of (checkRunners (syncer (snd (deregisterCheck api ident' w)))) =
       (if fst (agent_CheckDeregister api ident' (agent w)) = None
        then (map_of (checkRunners (syncer w)))(ident' := None)
        else map_of (checkRunners (syncer w)))"
proof -
  from assms(1) obtain rs rc run where
    br: "buildRegistrations env c domain services ([], [], [], checkRunners c) = Some (rs, rc, [], run)"
    and cg: "checkGroups c' = fold (\<lambda>(k, v). storeInGroup domain k v) rc (checkGroups c)"
    and cr: "checkRunners c' = run"
    by (rule SetServices_success_cases)
  from buildRegistrations_distinct[OF br] have drc: "distinct (map fst rc)" by simp
  have p1: "dom (map_of (checkRunners c)) \<subseteq> dom (map_of (checkRunners c'))"
    using buildRegistrations_frame[OF br] cr by simp
  have p2: "\<forall>serviceKey service reg.
        map_of services serviceKey = Some service \<and>
        createService c service domain serviceKey = Some (Inr reg) \<longrightarrow>
        derivedDelegatedIDs env c reg (s_Checks service) \<subseteq> dom (map_of (checkRunners c'))"
  proof (intro allI impI, elim conjE)
    fix k svc reg
    assume m: "map_of services k = Some svc" and cs: "createService c svc domain k = Some (Inr reg)"
    from br assms(2) m cs obtain new where
      "factoryKeepsID c \<longrightarrow> [] = ([]::error list) \<longrightarrow>
        derivedDelegatedIDs env c reg (s_Checks svc) \<subseteq> dom (map_of run)"
      by (rule buildRegistrations_checks_init)
    with assms(3) cr
    show "derivedDelegatedIDs env c reg (s_Checks svc) \<subseteq> dom (map_of (checkRunners c'))"
      by simp
  qed
  have p3: "\<forall>ident.
        ident \<in> dom (map_of (checkRunners c')) \<and> ident \<notin> dom (map_of (checkRunners c)) \<longrightarrow>
        (\<exists>serviceKey service reg chks.
           map_of services serviceKey = Some service \<and>
           createService c service domain serviceKey = Some (Inr reg) \<and>
           ident \<in> derivedDelegatedIDs env c reg (s_Checks service) \<and>
           groupLookup (checkGroups c') domain serviceKey = Some chks \<and>
           ident \<in> acr_ID ` set chks)"
  proof (intro allI impI, elim conjE)
    fix ident
    assume i1: "ident \<in> dom (map_of (checkRunners c'))" and i2: "ident \<notin> dom (map_of (checkRunners c))"
    from buildRegistrations_new_runners[OF br assms(2,3) i1[unfolded cr] i2]
    obtain k svc reg chks where r:
      "map_of services k = Some svc" "createService c svc domain k = Some (Inr reg)"
      "ident \<in> derivedDelegatedIDs env c reg (s_Checks svc)"
      "map_of rc k = Some chks" "ident \<in> acr_ID ` set chks"
      by blast
    have "groupLookup (checkGroups c') domain k = Some chks"
      using r(4) by (simp add: cg fold_store_lookup[OF drc])
    with r show "\<exists>serviceKey service reg chks.
           map_of services serviceKey = Some service \<and>
           createService c service domain serviceKey = Some (Inr reg) \<and>
           ident \<in> derivedDelegatedIDs env c reg (s_Checks service) \<and>
           groupLookup (checkGroups c') domain serviceKey = Some chks \<and>
           ident \<in> acr_ID ` set chks"
      by blast
  qed
  have p4: "dom (map_of (checkRunners c')) =
       dom (map_of (checkRunners c)) \<union> delegatedIDs env c domain services"
  proof (intro equalityI subsetI)
    fix ident assume i: "ident \<in> dom (map_of (checkRunners c'))"
    show "ident \<in> dom (map_of (checkRunners c)) \<union> delegatedIDs env c domain services"
    proof (cases "ident \<in> dom (map_of (checkRunners c))")
      case True
      then show ?thesis by simp
    next
      case False
      with p3 i have "\<exists>serviceKey service reg.
            map_of services serviceKey = Some service \<and>
            createService c service domain serviceKey = Some (Inr reg) \<and>
            ident \<in> derivedDelegatedIDs env c reg (s_Checks service)" by blast
      then have "ident \<in> delegatedIDs env c domain services"
        by (simp only: delegatedIDs_member[OF assms(2)])
      then show ?thesis by simp
    qed
  next
    fix ident assume "ident \<in> dom (map_of (checkRunners c)) \<union> delegatedIDs env c domain services"
    then consider "ident \<in> dom (map_of (checkRunners c))" | "ident \<in> delegatedIDs env c domain services"
      by blast
    then show "ident \<in> dom (map_of (checkRunners c'))"
    proof cases
      case 1
      with p1 show ?thesis by blast
    next
      case 2
      then have "\<exists>serviceKey service reg.
            map_of services serviceKey = Some service \<and>
            createService c service domain serviceKey = Some (Inr reg) \<and>
            ident \<in> derivedDelegatedIDs env c reg (s_Checks service)"
        by (simp only: delegatedIDs_member[OF assms(2)])
      with p2 show ?thesis by blast
    qed
  qed
  have p5: "\<forall>serviceKey service reg chkReg.
        map_of services serviceKey = Some service \<and>
        createService c service domain serviceKey = Some (Inr reg) \<and>
        chkReg \<in> derivedPlainChecks env c reg (s_Checks service) \<longrightarrow>
        (\<exists>chks. groupLookup (checkGroups c') domain serviceKey = Some chks \<and> chkReg \<in> set chks)"
  proof (intro allI impI, elim conjE)
    fix k svc reg chkReg
    assume m: "map_of services k = Some svc" and cs: "createService c svc domain k = Some (Inr reg)"
      and pl: "chkReg \<in> derivedPlainChecks env c reg (s_Checks svc)"
    from br assms(2) m cs obtain new where n:
      "map_of rc k = (if new = [] then None else Some new)"
      "derivedPlainChecks env c reg (s_Checks svc) \<subseteq> set new"
      by (rule buildRegistrations_checks_init)
    from n(2) pl have mem: "chkReg \<in> set new" by blast
    then have "new \<noteq> []" by auto
    with n(1) have "map_of rc k = Some new" by simp
    then have "groupLookup (checkGroups c') domain k = Some new"
      by (simp add: cg fold_store_lookup[OF drc])
    with mem show "\<exists>chks. groupLookup (checkGroups c') domain k = Some chks \<and> chkReg \<in> set chks"
      by blast
  qed
  have p6: "map_of (checkRunners (syncer (snd (deregisterCheck api ident' w)))) =
       (if fst (agent_CheckDeregister api ident' (agent w)) = None
        then (map_of (checkRunners (syncer w)))(ident' := None)
        else map_of (checkRunners (syncer w)))"
    by (simp only: deregisterCheck_runners deregisterCheck_fst)
  show ?thesis
    using p1 p2 p3 p4 p5 p6 by (intro conjI) assumption+
qed

theorem SetServices_runner_table_witness:
  "factoryKeepsID delegatingSyncer \<and>
   SetServices exampleEnv delegatingSyncer ''executor-a1-web'' [(''job'', watchedService)]
     = Some (None, watchedSyncer) \<and>
   map_of (checkRunners watchedSyncer) ''chk/run/_nomad-executor-a1-web-job'' \<noteq> None \<and>
   map_of (checkRunners watchedSyncer) ''chk/alive/_nomad-executor-a1-web-job'' = None \<and>
   (\<exists>chks. groupLookup (checkGroups watchedSyncer) ''executor-a1-web'' ''job'' = Some chks \<and>
           jobAliveRegistration \<in> set chks)"
proof -
  let ?m = "[(''job'', watchedService)]"
  note h = watchedSetServices_eval
  have d: "distinct (map fst ?m)" by simp
  have m1: "map_of ?m ''job'' = Some watchedService" by simp
  have cs: "createService delegatingSyncer watchedService ''executor-a1-web'' ''job'' = Some (Inr jobRegistration)"
    by (simp add: syncer_eval example_eval example_eval2 watchedService_def)
  have cc: "createCheckReg exampleEnv scriptCheck jobRegistration = Inr (jobScriptRegistration, scriptCheck)"
    by (simp add: syncer_eval example_eval example_eval2 ttlCheckBuffer_def jobScriptRegistration_def)
  have ca: "createCheckReg exampleEnv aliveCheck jobRegistration = Inr (jobAliveRegistration, aliveCheck)"
    by (simp add: syncer_eval example_eval example_eval2 aliveCheck_def jobAliveRegistration_def)
  have ty: "sc_Type scriptCheck \<in> delegateChecks delegatingSyncer"
    "sc_Type aliveCheck \<notin> delegateChecks delegatingSyncer"
    "checkRunners delegatingSyncer = []"
    by (simp_all add: delegatingSyncer_def SetDelegatedChecks_def freshSyncer_def SetAddrFinder_def
        NewSyncer_def scriptCheck_def aliveCheck_def)
  have dd1: "''chk/run/_nomad-executor-a1-web-job''
      \<in> derivedDelegatedIDs exampleEnv delegatingSyncer jobRegistration (s_Checks watchedService)"
    unfolding derivedDelegatedIDs_def
    by (rule CollectI, rule exI[of _ jobScriptRegistration], rule exI[of _ scriptCheck],
        rule exI[of _ scriptCheck])
       (simp add: cc ty watchedService_def jobScriptRegistration_def)
  have dd2: "derivedDelegatedIDs exampleEnv delegatingSyncer jobRegistration (s_Checks watchedService)
      \<subseteq> {''chk/run/_nomad-executor-a1-web-job''}"
    unfolding derivedDelegatedIDs_def
    using cc ca ty by (auto simp: watchedService_def jobScriptRegistration_def)
  from dd1 dd2 have dd:
    "derivedDelegatedIDs exampleEnv delegatingSyncer jobRegistration (s_Checks watchedService)
      = {''chk/run/_nomad-executor-a1-web-job''}"
    by blast
  have di: "delegatedIDs exampleEnv delegatingSyncer ''executor-a1-web'' ?m
      = {''chk/run/_nomad-executor-a1-web-job''}"
    by (simp add: delegatedIDs_def cs dd)
  have pl: "jobAliveRegistration
      \<in> derivedPlainChecks exampleEnv delegatingSyncer jobRegistration (s_Checks watchedService)"
    unfolding derivedPlainChecks_def
    by (rule CollectI, rule bexI[of _ aliveCheck], rule exI[of _ aliveCheck])
       (simp_all add: ca ty watchedService_def)
  note t = SetServices_runner_table[OF h d factoryKeepsID_delegatingSyncer]
  from t have eq: "dom (map_of (checkRunners watchedSyncer)) =
       dom (map_of (checkRunners delegatingSyncer))
         \<union> delegatedIDs exampleEnv delegatingSyncer ''executor-a1-web'' ?m"
    by blast
  then have domeq: "dom (map_of (checkRunners watchedSyncer)) = {''chk/run/_nomad-executor-a1-web-job''}"
    by (simp only: di ty(3)) simp
  from domeq have r1: "map_of (checkRunners watchedSyncer) ''chk/run/_nomad-executor-a1-web-job'' \<noteq> None"
    by blast
  from domeq have "''chk/alive/_nomad-executor-a1-web-job'' \<notin> dom (map_of (checkRunners watchedSyncer))"
    by simp
  then have r2: "map_of (checkRunners watchedSyncer) ''chk/alive/_nomad-executor-a1-web-job'' = None"
    by blast
  from t m1 cs pl have r3: "\<exists>chks. groupLookup (checkGroups watchedSyncer) ''executor-a1-web'' ''job'' = Some chks \<and>
           jobAliveRegistration \<in> set chks"
    by blast
  show ?thesis
    using factoryKeepsID_delegatingSyncer h r1 r2 r3 by (intro conjI) assumption+
qed

subsection \<open>The diff of agreeing inventories\<close>

lemma localServices_inv_aux:
  assumes "distinct (map fst acc)"
    and "\<forall>k ls st. map_of acc k = Some (ls, st) \<longrightarrow> asr_ID ls = k \<and> ls \<in> A \<and> st = CHR ''l''"
    and "set locals \<subseteq> A"
  shows "distinct (map fst (fold (\<lambda>localService. AList.update (asr_ID localService) (localService, CHR ''l'')) locals acc)) \<and>
         dom (map_of (fold (\<lambda>localService. AList.update (asr_ID localService) (localService, CHR ''l'')) locals acc))
           = asr_ID ` set locals \<union> dom (map_of acc) \<and>
         (\<forall>k ls st. map_of (fold (\<lambda>localService. AList.update (asr_ID localService) (localService, CHR ''l'')) locals acc) k = Some (ls, st) \<longrightarrow>
            asr_ID ls = k \<and> ls \<in> A \<and> st = CHR ''l'')"
  using assms
proof (induction locals arbitrary: acc)
  case Nil
  then show ?case by simp
next
  case (Cons a locals)
  let ?f = "\<lambda>localService. AList.update (asr_ID localService) (localService, CHR ''l'')"
  let ?acc = "AList.update (asr_ID a) (a, CHR ''l'') acc"
  have 1: "distinct (map fst ?acc)" using Cons.prems(1) by (simp add: distinct_update)
  have 2: "\<forall>k ls st. map_of ?acc k = Some (ls, st) \<longrightarrow> asr_ID ls = k \<and> ls \<in> A \<and> st = CHR ''l''"
    using Cons.prems(2,3) by (auto simp: update_conv')
  have 3: "set locals \<subseteq> A" using Cons.prems(3) by simp
  have 4: "dom (map_of ?acc) = insert (asr_ID a) (dom (map_of acc))" by (simp add: update_conv')
  have 5: "fold ?f (a # locals) acc = fold ?f locals ?acc" by simp
  from Cons.IH[OF 1 2 3] have
    i1: "distinct (map fst (fold ?f locals ?acc))"
    and i2: "dom (map_of (fold ?f locals ?acc)) = asr_ID ` set locals \<union> dom (map_of ?acc)"
    and i3: "\<forall>k ls st. map_of (fold ?f locals ?acc) k = Some (ls, st) \<longrightarrow>
            asr_ID ls = k \<and> ls \<in> A \<and> st = CHR ''l''"
    by blast+
  have "dom (map_of (fold ?f locals ?acc)) = asr_ID ` set (a # locals) \<union> dom (map_of acc)"
    unfolding i2 4 by auto
  with i1 i3 show ?case unfolding 5 by blast
qed

lemma localServices_inv:
  "mergedServicesInv locals {}
     (fold (\<lambda>localService. AList.update (asr_ID localService) (localService, CHR ''l'')) locals [])"
proof -
  have "distinct (map fst ([] :: (string \<times> AgentServiceRegistration \<times> char) list))" by simp
  moreover have "\<forall>k ls st. map_of ([] :: (string \<times> AgentServiceRegistration \<times> char) list) k = Some (ls, st) \<longrightarrow>
      asr_ID ls = k \<and> ls \<in> set locals \<and> st = CHR ''l''" by simp
  moreover have "set locals \<subseteq> set locals" by simp
  ultimately have r: "distinct (map fst (fold (\<lambda>localService. AList.update (asr_ID localService) (localService, CHR ''l'')) locals [])) \<and>
         dom (map_of (fold (\<lambda>localService. AList.update (asr_ID localService) (localService, CHR ''l'')) locals []))
           = asr_ID ` set locals \<union> dom (map_of ([] :: (string \<times> AgentServiceRegistration \<times> char) list)) \<and>
         (\<forall>k ls st. map_of (fold (\<lambda>localService. AList.update (asr_ID localService) (localService, CHR ''l'')) locals []) k = Some (ls, st) \<longrightarrow>
            asr_ID ls = k \<and> ls \<in> set locals \<and> st = CHR ''l'')"
    by (rule localServices_inv_aux)
  then have r1: "distinct (map fst (fold (\<lambda>localService. AList.update (asr_ID localService) (localService, CHR ''l'')) locals []))"
    and r2: "dom (map_of (fold (\<lambda>localService. AList.update (asr_ID localService) (localService, CHR ''l'')) locals []))
           = asr_ID ` set locals \<union> dom (map_of ([] :: (string \<times> AgentServiceRegistration \<times> char) list))"
    and r3: "\<forall>k ls st. map_of (fold (\<lambda>localService. AList.update (asr_ID localService) (localService, CHR ''l'')) locals []) k = Some (ls, st) \<longrightarrow>
            asr_ID ls = k \<and> ls \<in> set locals \<and> st = CHR ''l''"
    by blast+
  have g: "\<And>k. (if k \<in> ({}::string set) then CHR ''e'' else CHR ''l'') = CHR ''l''" by simp
  have r2': "dom (map_of (fold (\<lambda>localService. AList.update (asr_ID localService) (localService, CHR ''l'')) locals []))
           = asr_ID ` set locals" unfolding r2 by simp
  show ?thesis unfolding mergedServicesInv_def g using r1 r2' r3 by blast
qed

lemma mergeConsulService_inv:
  assumes "mergedServicesInv locals P m"
    and "as_ID cs \<in> asr_ID ` set locals"
    and "\<forall>ls\<in>set locals. as_ID cs = asr_ID ls \<longrightarrow> compareConsulService ls cs"
  shows "mergedServicesInv locals (insert (as_ID cs) P) (mergeConsulService cs m)"
proof -
  from assms(1) have d: "distinct (map fst m)" and dm: "dom (map_of m) = asr_ID ` set locals"
    and e: "\<And>k ls st. map_of m k = Some (ls, st) \<Longrightarrow>
        asr_ID ls = k \<and> ls \<in> set locals \<and> st = (if k \<in> P then CHR ''e'' else CHR ''l'')"
    by (auto simp: mergedServicesInv_def)
  from assms(2) dm obtain ls st where l: "map_of m (as_ID cs) = Some (ls, st)" by fastforce
  from e[OF l] have ls: "asr_ID ls = as_ID cs" "ls \<in> set locals" by simp_all
  with assms(3) have cmp: "compareConsulService ls cs" by auto
  have r: "mergeConsulService cs m = AList.update (as_ID cs) (ls, CHR ''e'') m"
    using l cmp by (simp add: mergeConsulService_def)
  show ?thesis
    unfolding r mergedServicesInv_def
    using d dm e ls l
    by (auto simp: distinct_update update_conv' split: if_splits)
qed

lemma fold_mergeConsulService_inv:
  "mergedServicesInv locals P m \<Longrightarrow>
   \<forall>cs\<in>snd ` set css. as_ID cs \<in> asr_ID ` set locals \<Longrightarrow>
   \<forall>ls\<in>set locals. \<forall>cs\<in>snd ` set css. as_ID cs = asr_ID ls \<longrightarrow> compareConsulService ls cs \<Longrightarrow>
   mergedServicesInv locals (P \<union> as_ID ` snd ` set css)
     (fold (\<lambda>(serviceID, consulService). mergeConsulService consulService) css m)"
proof (induction css arbitrary: m P)
  case Nil
  then show ?case by simp
next
  case (Cons a css)
  obtain sid cs where a: "a = (sid, cs)" by (cases a)
  have 1: "mergedServicesInv locals (insert (as_ID cs) P) (mergeConsulService cs m)"
    using Cons.prems a by (intro mergeConsulService_inv) simp_all
  have 2: "\<forall>cs\<in>snd ` set css. as_ID cs \<in> asr_ID ` set locals" using Cons.prems(2) by simp
  have 3: "\<forall>ls\<in>set locals. \<forall>cs\<in>snd ` set css. as_ID cs = asr_ID ls \<longrightarrow> compareConsulService ls cs"
    using Cons.prems(3) by simp
  have "insert (as_ID cs) P \<union> as_ID ` snd ` set css = P \<union> as_ID ` snd ` set (a # css)"
    using a by simp
  with Cons.IH[OF 1 2 3] a show ?case by simp
qed

lemma withState_empty:
  assumes "mergedServicesInv locals P m" and "asr_ID ` set locals \<subseteq> P" and "st \<noteq> CHR ''e''"
  shows "withState st m = []"
proof -
  have "\<And>k ls s. (k, ls, s) \<in> set m \<Longrightarrow> s = CHR ''e''"
  proof -
    fix k ls s assume i: "(k, ls, s) \<in> set m"
    with assms(1) have mo: "map_of m k = Some (ls, s)" by (simp add: mergedServicesInv_def)
    with assms(1) have "k \<in> asr_ID ` set locals" "s = (if k \<in> P then CHR ''e'' else CHR ''l'')"
      unfolding mergedServicesInv_def by blast+
    with assms(2) show "s = CHR ''e''" by auto
  qed
  with assms(3) show ?thesis
    by (auto simp: withState_def filter_empty_conv)
qed

lemma withState_equal_ids:
  assumes "mergedServicesInv locals P m" and "asr_ID ` set locals \<subseteq> P"
  shows "asr_ID ` set (withState (CHR ''e'') m) = asr_ID ` set locals"
proof -
  have all: "\<And>k ls s. (k, ls, s) \<in> set m \<Longrightarrow> s = CHR ''e'' \<and> asr_ID ls = k"
  proof -
    fix k ls s assume i: "(k, ls, s) \<in> set m"
    with assms(1) have mo: "map_of m k = Some (ls, s)" by (simp add: mergedServicesInv_def)
    with assms(1) have "k \<in> asr_ID ` set locals" "s = (if k \<in> P then CHR ''e'' else CHR ''l'')" "asr_ID ls = k"
      unfolding mergedServicesInv_def by blast+
    with assms(2) show "s = CHR ''e'' \<and> asr_ID ls = k" by auto
  qed
  have "asr_ID ` set (withState (CHR ''e'') m) = fst ` set m"
  proof (intro equalityI subsetI)
    fix x assume "x \<in> asr_ID ` set (withState (CHR ''e'') m)"
    then obtain k ls s where "(k, ls, s) \<in> set m" "x = asr_ID ls"
      by (auto simp: withState_def)
    with all[of k ls s] show "x \<in> fst ` set m" by force
  next
    fix x assume "x \<in> fst ` set m"
    then obtain ls s where i: "(x, ls, s) \<in> set m" by auto
    from all[OF i] have "s = CHR ''e''" "asr_ID ls = x" by simp_all
    with i have "ls \<in> set (withState (CHR ''e'') m)"
      unfolding withState_def by force
    with \<open>asr_ID ls = x\<close> show "x \<in> asr_ID ` set (withState (CHR ''e'') m)" by blast
  qed
  also have "\<dots> = dom (map_of m)" by (simp add: dom_map_of_conv_image_fst)
  also have "\<dots> = asr_ID ` set locals" using assms(1) by (simp add: mergedServicesInv_def)
  finally show ?thesis .
qed

lemma calcServicesDiff_agree:
  assumes "servicesAgree c consulServices"
  shows "calcServicesDiff c consulServices
           = ([], withState (CHR ''e'') (mergedServices c consulServices), [], []) \<and>
         asr_ID ` set (withState (CHR ''e'') (mergedServices c consulServices))
           = asr_ID ` set (flattenedServices c)"
proof -
  let ?locals = "flattenedServices c"
  let ?P = "as_ID ` snd ` set consulServices"
  from assms have
    b1: "\<forall>ls\<in>set ?locals. \<exists>cs\<in>snd ` set consulServices. as_ID cs = asr_ID ls"
    and b2: "\<forall>cs\<in>snd ` set consulServices. \<exists>ls\<in>set ?locals. asr_ID ls = as_ID cs"
    and a2: "\<forall>ls\<in>set ?locals. \<forall>cs\<in>snd ` set consulServices.
               as_ID cs = asr_ID ls \<longrightarrow> compareConsulService ls cs"
    unfolding servicesAgree_def by simp_all
  have a1: "\<forall>cs\<in>snd ` set consulServices. as_ID cs \<in> asr_ID ` set ?locals"
  proof
    fix cs assume "cs \<in> snd ` set consulServices"
    with b2 obtain ls where "ls \<in> set ?locals" "asr_ID ls = as_ID cs" by blast
    then show "as_ID cs \<in> asr_ID ` set ?locals" by (metis imageI)
  qed
  have a3: "asr_ID ` set ?locals \<subseteq> ?P"
  proof
    fix x assume "x \<in> asr_ID ` set ?locals"
    then obtain ls where "ls \<in> set ?locals" "x = asr_ID ls" by blast
    with b1 obtain cs where "cs \<in> snd ` set consulServices" "as_ID cs = x" by blast
    then show "x \<in> ?P" by (metis imageI)
  qed
  have inv: "mergedServicesInv ?locals ({} \<union> ?P) (mergedServices c consulServices)"
    unfolding mergedServices_def
    by (rule fold_mergeConsulService_inv[OF localServices_inv a1 a2])
  then have inv': "mergedServicesInv ?locals ?P (mergedServices c consulServices)" by simp
  have e: "withState (CHR ''l'') (mergedServices c consulServices) = []"
    "withState (CHR ''c'') (mergedServices c consulServices) = []"
    "withState (CHR ''a'') (mergedServices c consulServices) = []"
    by (rule withState_empty[OF inv' a3], simp)+
  show ?thesis
    using e withState_equal_ids[OF inv' a3]
    by (simp add: calcServicesDiff_def Let_def)
qed

lemma syncServices_agree:
  assumes "agent_Services api (agent w) = Inr services"
    and "servicesAgree (syncer w) (filterConsulServices (syncer w) services)"
  shows "syncServices api w = (None, w)"
proof -
  from calcServicesDiff_agree[OF assms(2)] obtain eq where
    d: "calcServicesDiff (syncer w) (filterConsulServices (syncer w) services) = ([], eq, [], [])"
    by blast
  show ?thesis
    by (simp add: syncServices_def assms(1) d ErrorOrNil_def)
qed

lemma localChecks_inv_aux:
  assumes "distinct (map fst acc)"
    and "\<forall>k ls st. map_of acc k = Some (ls, st) \<longrightarrow> acr_ID ls = k \<and> ls \<in> A \<and> st = CHR ''l''"
    and "set locals \<subseteq> A"
  shows "distinct (map fst (fold (\<lambda>localCheck. AList.update (acr_ID localCheck) (localCheck, CHR ''l'')) locals acc)) \<and>
         dom (map_of (fold (\<lambda>localCheck. AList.update (acr_ID localCheck) (localCheck, CHR ''l'')) locals acc))
           = acr_ID ` set locals \<union> dom (map_of acc) \<and>
         (\<forall>k ls st. map_of (fold (\<lambda>localCheck. AList.update (acr_ID localCheck) (localCheck, CHR ''l'')) locals acc) k = Some (ls, st) \<longrightarrow>
            acr_ID ls = k \<and> ls \<in> A \<and> st = CHR ''l'')"
  using assms
proof (induction locals arbitrary: acc)
  case Nil
  then show ?case by simp
next
  case (Cons a locals)
  let ?f = "\<lambda>localCheck. AList.update (acr_ID localCheck) (localCheck, CHR ''l'')"
  let ?acc = "AList.update (acr_ID a) (a, CHR ''l'') acc"
  have 1: "distinct (map fst ?acc)" using Cons.prems(1) by (simp add: distinct_update)
  have 2: "\<forall>k ls st. map_of ?acc k = Some (ls, st) \<longrightarrow> acr_ID ls = k \<and> ls \<in> A \<and> st = CHR ''l''"
    using Cons.prems(2,3) by (auto simp: update_conv')
  have 3: "set locals \<subseteq> A" using Cons.prems(3) by simp
  have 4: "dom (map_of ?acc) = insert (acr_ID a) (dom (map_of acc))" by (simp add: update_conv')
  have 5: "fold ?f (a # locals) acc = fold ?f locals ?acc" by simp
  from Cons.IH[OF 1 2 3] have
    i1: "distinct (map fst (fold ?f locals ?acc))"
    and i2: "dom (map_of (fold ?f locals ?acc)) = acr_ID ` set locals \<union> dom (map_of ?acc)"
    and i3: "\<forall>k ls st. map_of (fold ?f locals ?acc) k = Some (ls, st) \<longrightarrow>
            acr_ID ls = k \<and> ls \<in> A \<and> st = CHR ''l''"
    by blast+
  have "dom (map_of (fold ?f locals ?acc)) = acr_ID ` set (a # locals) \<union> dom (map_of acc)"
    unfolding i2 4 by auto
  with i1 i3 show ?case unfolding 5 by blast
qed

lemma localChecks_inv:
  "mergedChecksInv locals {}
     (fold (\<lambda>localCheck. AList.update (acr_ID localCheck) (localCheck, CHR ''l'')) locals [])"
proof -
  have "distinct (map fst ([] :: (string \<times> AgentCheckRegistration \<times> char) list))" by simp
  moreover have "\<forall>k ls st. map_of ([] :: (string \<times> AgentCheckRegistration \<times> char) list) k = Some (ls, st) \<longrightarrow>
      acr_ID ls = k \<and> ls \<in> set locals \<and> st = CHR ''l''" by simp
  moreover have "set locals \<subseteq> set locals" by simp
  ultimately have r: "distinct (map fst (fold (\<lambda>localCheck. AList.update (acr_ID localCheck) (localCheck, CHR ''l'')) locals [])) \<and>
         dom (map_of (fold (\<lambda>localCheck. AList.update (acr_ID localCheck) (localCheck, CHR ''l'')) locals []))
           = acr_ID ` set locals \<union> dom (map_of ([] :: (string \<times> AgentCheckRegistration \<times> char) list)) \<and>
         (\<forall>k ls st. map_of (fold (\<lambda>localCheck. AList.update (acr_ID localCheck) (localCheck, CHR ''l'')) locals []) k = Some (ls, st) \<longrightarrow>
            acr_ID ls = k \<and> ls \<in> set locals \<and> st = CHR ''l'')"
    by (rule localChecks_inv_aux)
  then have r1: "distinct (map fst (fold (\<lambda>localCheck. AList.update (acr_ID localCheck) (localCheck, CHR ''l'')) locals []))"
    and r2: "dom (map_of (fold (\<lambda>localCheck. AList.update (acr_ID localCheck) (localCheck, CHR ''l'')) locals []))
           = acr_ID ` set locals \<union> dom (map_of ([] :: (string \<times> AgentCheckRegistration \<times> char) list))"
    and r3: "\<forall>k ls st. map_of (fold (\<lambda>localCheck. AList.update (acr_ID localCheck) (localCheck, CHR ''l'')) locals []) k = Some (ls, st) \<longrightarrow>
            acr_ID ls = k \<and> ls \<in> set locals \<and> st = CHR ''l''"
    by blast+
  have g: "\<And>k. (if k \<in> ({}::string set) then CHR ''e'' else CHR ''l'') = CHR ''l''" by simp
  have r2': "dom (map_of (fold (\<lambda>localCheck. AList.update (acr_ID localCheck) (localCheck, CHR ''l'')) locals []))
           = acr_ID ` set locals" unfolding r2 by simp
  show ?thesis unfolding mergedChecksInv_def g using r1 r2' r3 by blast
qed

lemma mergeConsulCheck_inv:
  assumes "mergedChecksInv locals P m"
    and "ac_CheckID cs \<in> acr_ID ` set locals"
    and "\<forall>ls\<in>set locals. ac_CheckID cs = acr_ID ls \<longrightarrow> compareConsulCheck ls cs"
  shows "mergedChecksInv locals (insert (ac_CheckID cs) P) (mergeConsulCheck cs m)"
proof -
  from assms(1) have d: "distinct (map fst m)" and dm: "dom (map_of m) = acr_ID ` set locals"
    and e: "\<And>k ls st. map_of m k = Some (ls, st) \<Longrightarrow>
        acr_ID ls = k \<and> ls \<in> set locals \<and> st = (if k \<in> P then CHR ''e'' else CHR ''l'')"
    by (auto simp: mergedChecksInv_def)
  from assms(2) dm obtain ls st where l: "map_of m (ac_CheckID cs) = Some (ls, st)" by fastforce
  from e[OF l] have ls: "acr_ID ls = ac_CheckID cs" "ls \<in> set locals" by simp_all
  with assms(3) have cmp: "compareConsulCheck ls cs" by auto
  have r: "mergeConsulCheck cs m = AList.update (ac_CheckID cs) (ls, CHR ''e'') m"
    using l cmp by (simp add: mergeConsulCheck_def)
  show ?thesis
    unfolding r mergedChecksInv_def
    using d dm e ls l
    by (auto simp: distinct_update update_conv' split: if_splits)
qed

lemma fold_mergeConsulCheck_inv:
  "mergedChecksInv locals P m \<Longrightarrow>
   \<forall>cs\<in>snd ` set css. ac_CheckID cs \<in> acr_ID ` set locals \<Longrightarrow>
   \<forall>ls\<in>set locals. \<forall>cs\<in>snd ` set css. ac_CheckID cs = acr_ID ls \<longrightarrow> compareConsulCheck ls cs \<Longrightarrow>
   mergedChecksInv locals (P \<union> ac_CheckID ` snd ` set css)
     (fold (\<lambda>(checkID, consulCheck). mergeConsulCheck consulCheck) css m)"
proof (induction css arbitrary: m P)
  case Nil
  then show ?case by simp
next
  case (Cons a css)
  obtain sid cs where a: "a = (sid, cs)" by (cases a)
  have 1: "mergedChecksInv locals (insert (ac_CheckID cs) P) (mergeConsulCheck cs m)"
    using Cons.prems a by (intro mergeConsulCheck_inv) simp_all
  have 2: "\<forall>cs\<in>snd ` set css. ac_CheckID cs \<in> acr_ID ` set locals" using Cons.prems(2) by simp
  have 3: "\<forall>ls\<in>set locals. \<forall>cs\<in>snd ` set css. ac_CheckID cs = acr_ID ls \<longrightarrow> compareConsulCheck ls cs"
    using Cons.prems(3) by simp
  have "insert (ac_CheckID cs) P \<union> ac_CheckID ` snd ` set css = P \<union> ac_CheckID ` snd ` set (a # css)"
    using a by simp
  with Cons.IH[OF 1 2 3] a show ?case by simp
qed

lemma withState_empty_checks:
  assumes "mergedChecksInv locals P m" and "acr_ID ` set locals \<subseteq> P" and "st \<noteq> CHR ''e''"
  shows "withState st m = []"
proof -
  have "\<And>k ls s. (k, ls, s) \<in> set m \<Longrightarrow> s = CHR ''e''"
  proof -
    fix k ls s assume i: "(k, ls, s) \<in> set m"
    with assms(1) have mo: "map_of m k = Some (ls, s)" by (simp add: mergedChecksInv_def)
    with assms(1) have "k \<in> acr_ID ` set locals" "s = (if k \<in> P then CHR ''e'' else CHR ''l'')"
      unfolding mergedChecksInv_def by blast+
    with assms(2) show "s = CHR ''e''" by auto
  qed
  with assms(3) show ?thesis
    by (auto simp: withState_def filter_empty_conv)
qed

lemma withState_equal_ids_checks:
  assumes "mergedChecksInv locals P m" and "acr_ID ` set locals \<subseteq> P"
  shows "acr_ID ` set (withState (CHR ''e'') m) = acr_ID ` set locals"
proof -
  have all: "\<And>k ls s. (k, ls, s) \<in> set m \<Longrightarrow> s = CHR ''e'' \<and> acr_ID ls = k"
  proof -
    fix k ls s assume i: "(k, ls, s) \<in> set m"
    with assms(1) have mo: "map_of m k = Some (ls, s)" by (simp add: mergedChecksInv_def)
    with assms(1) have "k \<in> acr_ID ` set locals" "s = (if k \<in> P then CHR ''e'' else CHR ''l'')" "acr_ID ls = k"
      unfolding mergedChecksInv_def by blast+
    with assms(2) show "s = CHR ''e'' \<and> acr_ID ls = k" by auto
  qed
  have "acr_ID ` set (withState (CHR ''e'') m) = fst ` set m"
  proof (intro equalityI subsetI)
    fix x assume "x \<in> acr_ID ` set (withState (CHR ''e'') m)"
    then obtain k ls s where "(k, ls, s) \<in> set m" "x = acr_ID ls"
      by (auto simp: withState_def)
    with all[of k ls s] show "x \<in> fst ` set m" by force
  next
    fix x assume "x \<in> fst ` set m"
    then obtain ls s where i: "(x, ls, s) \<in> set m" by auto
    from all[OF i] have "s = CHR ''e''" "acr_ID ls = x" by simp_all
    with i have "ls \<in> set (withState (CHR ''e'') m)"
      unfolding withState_def by force
    with \<open>acr_ID ls = x\<close> show "x \<in> acr_ID ` set (withState (CHR ''e'') m)" by blast
  qed
  also have "\<dots> = dom (map_of m)" by (simp add: dom_map_of_conv_image_fst)
  also have "\<dots> = acr_ID ` set locals" using assms(1) by (simp add: mergedChecksInv_def)
  finally show ?thesis .
qed

lemma calcChecksDiff_agree:
  assumes "checksAgree c consulChecks"
  shows "calcChecksDiff c consulChecks
           = ([], withState (CHR ''e'') (mergedChecks c consulChecks), [], []) \<and>
         acr_ID ` set (withState (CHR ''e'') (mergedChecks c consulChecks))
           = acr_ID ` set (flattenedChecks c)"
proof -
  let ?locals = "flattenedChecks c"
  let ?P = "ac_CheckID ` snd ` set consulChecks"
  from assms have
    b1: "\<forall>ls\<in>set ?locals. \<exists>cs\<in>snd ` set consulChecks. ac_CheckID cs = acr_ID ls"
    and b2: "\<forall>cs\<in>snd ` set consulChecks. \<exists>ls\<in>set ?locals. acr_ID ls = ac_CheckID cs"
    and a2: "\<forall>ls\<in>set ?locals. \<forall>cs\<in>snd ` set consulChecks.
               ac_CheckID cs = acr_ID ls \<longrightarrow> compareConsulCheck ls cs"
    unfolding checksAgree_def by simp_all
  have a1: "\<forall>cs\<in>snd ` set consulChecks. ac_CheckID cs \<in> acr_ID ` set ?locals"
  proof
    fix cs assume "cs \<in> snd ` set consulChecks"
    with b2 obtain ls where "ls \<in> set ?locals" "acr_ID ls = ac_CheckID cs" by blast
    then show "ac_CheckID cs \<in> acr_ID ` set ?locals" by (metis imageI)
  qed
  have a3: "acr_ID ` set ?locals \<subseteq> ?P"
  proof
    fix x assume "x \<in> acr_ID ` set ?locals"
    then obtain ls where "ls \<in> set ?locals" "x = acr_ID ls" by blast
    with b1 obtain cs where "cs \<in> snd ` set consulChecks" "ac_CheckID cs = x" by blast
    then show "x \<in> ?P" by (metis imageI)
  qed
  have inv: "mergedChecksInv ?locals ({} \<union> ?P) (mergedChecks c consulChecks)"
    unfolding mergedChecks_def
    by (rule fold_mergeConsulCheck_inv[OF localChecks_inv a1 a2])
  then have inv': "mergedChecksInv ?locals ?P (mergedChecks c consulChecks)" by simp
  have e: "withState (CHR ''l'') (mergedChecks c consulChecks) = []"
    "withState (CHR ''c'') (mergedChecks c consulChecks) = []"
    "withState (CHR ''a'') (mergedChecks c consulChecks) = []"
    by (rule withState_empty_checks[OF inv' a3], simp)+
  show ?thesis
    using e withState_equal_ids_checks[OF inv' a3]
    by (simp add: calcChecksDiff_def Let_def)
qed

lemma syncChecks_agree:
  assumes "agent_Checks api (agent w) = Inr checks"
    and "checksAgree (syncer w) (filterConsulChecks (syncer w) checks)"
  shows "syncChecks api w = (None, w)"
proof -
  from calcChecksDiff_agree[OF assms(2)] obtain eq where
    d: "calcChecksDiff (syncer w) (filterConsulChecks (syncer w) checks) = ([], eq, [], [])"
    by blast
  show ?thesis
    by (simp add: syncChecks_def assms(1) d ErrorOrNil_def)
qed

text \<open>
  Claim C8: if the agent's filtered inventory agrees with the flattened local state (as a
  sync that succeeded leaves it), then a \<open>SyncServices\<close> whose handlers return no error
  issues no ServiceRegister, ServiceDeregister, CheckRegister or CheckDeregister call
  and returns nil with the world unchanged: in both diffs the missing, changed and stale
  partitions are empty, and the equal partition holds a registration for every local ID.
\<close>

theorem SyncServices_idempotent:
  assumes "RunHandlers handlers w = (None, w1)"
    and "agent_Services api (agent w1) = Inr services"
    and "servicesAgree (syncer w1) (filterConsulServices (syncer w1) services)"
    and "agent_Checks api (agent w1) = Inr checks"
    and "checksAgree (syncer w1) (filterConsulChecks (syncer w1) checks)"
  shows
    "SyncServices api handlers w = (None, w1) \<and>
     calls (snd (SyncServices api handlers w)) = calls w1 \<and>
     (\<exists>equalServices.
        calcServicesDiff (syncer w1) (filterConsulServices (syncer w1) services)
          = ([], equalServices, [], []) \<and>
        asr_ID ` set equalServices = asr_ID ` set (flattenedServices (syncer w1))) \<and>
     (\<exists>equalChecks.
        calcChecksDiff (syncer w1) (filterConsulChecks (syncer w1) checks)
          = ([], equalChecks, [], []) \<and>
        acr_ID ` set equalChecks = acr_ID ` set (flattenedChecks (syncer w1)))"
proof -
  have s: "syncServices api w1 = (None, w1)" by (rule syncServices_agree[OF assms(2,3)])
  have c: "syncChecks api w1 = (None, w1)" by (rule syncChecks_agree[OF assms(4,5)])
  have r: "SyncServices api handlers w = (None, w1)"
    by (simp add: SyncServices_def assms(1) s c)
  from calcServicesDiff_agree[OF assms(3)] calcChecksDiff_agree[OF assms(5)] r
  show ?thesis by simp
qed

lemma agreeingWorld_agrees:
  "RunHandlers [(''discover'', passingHandler)] agreeingWorld = (None, agreeingWorld)"
  "agent_Services memAPI (agent agreeingWorld) = Inr (mem_services (agent agreeingWorld))"
  "servicesAgree (syncer agreeingWorld)
     (filterConsulServices (syncer agreeingWorld) (mem_services (agent agreeingWorld)))"
  "agent_Checks memAPI (agent agreeingWorld) = Inr (mem_checks (agent agreeingWorld))"
  "checksAgree (syncer agreeingWorld)
     (filterConsulChecks (syncer agreeingWorld) (mem_checks (agent agreeingWorld)))"
  by (simp_all add: servicesAgree_def checksAgree_def sync_eval world_eval syncer_eval
      example_eval example_eval2)

theorem SyncServices_idempotent_witness:
  "SyncServices memAPI [(''discover'', passingHandler)] agreeingWorld = (None, agreeingWorld) \<and>
   calls (snd (SyncServices memAPI [(''discover'', passingHandler)] agreeingWorld)) = []"
proof -
  have "calls agreeingWorld = []" by (simp add: agreeingWorld_def)
  with SyncServices_idempotent[OF agreeingWorld_agrees] show ?thesis by simp
qed

end
